theory Spec2Isabelle
  imports Complex_Main
begin

section \<open>Conventions of the embedding\<close>

text \<open>
  The simulator is Python. Its \<^verbatim>\<open>int\<close> values are modelled as \<^typ>\<open>int\<close>, its
  \<^verbatim>\<open>float\<close> values as \<^typ>\<open>real\<close>. In the two AIMD controllers, where a product
  is truncated to an integer and the rounding of a double decides the result, every float
  operation is the exact operation followed by rounding to the nearest double (section
  ``IEEE doubles''). Everywhere else an arithmetic operation on floats is read as the exact
  operation on the real numbers they denote. Objects mutated in place become records that the
  model functions return updated. A Python exception is a value \<open>Inl e\<close> of a sum type.
\<close>

datatype py_error = ValueError | IndexError | ZeroDivisionError

text \<open>Python's \<^verbatim>\<open>int(x)\<close> on a float truncates towards zero.\<close>

definition py_int :: "real \<Rightarrow> int" where
  "py_int x = (if 0 \<le> x then \<lfloor>x\<rfloor> else \<lceil>x\<rceil>)"

section \<open>IEEE doubles\<close>

text \<open>
  A finite double is a real \<open>m * 2^e\<close> with an integer \<open>m\<close> of at most 53 bits. An
  operation on doubles returns the exact result rounded to the nearest double, a tie going to
  the even significand. The range of the exponent is not bounded here: overflow and
  subnormal numbers (magnitudes above \<open>1.8e308\<close> or below \<open>2.2e-308\<close>) are outside the
  model, and with them the \<^verbatim>\<open>OverflowError\<close> of converting an \<^verbatim>\<open>int\<close> of that size.
\<close>

text \<open>The number of binary digits of a natural number.\<close>

fun bit_length :: "nat \<Rightarrow> nat" where
  "bit_length n = (if n = 0 then 0 else Suc (bit_length (n div 2)))"

text \<open>The exponent \<open>e\<close> of a positive real \<open>x\<close>, with \<open>2^e \<le> x < 2^(e+1)\<close>.\<close>

definition exponent :: "real \<Rightarrow> int" where
  "exponent x = (if 1 \<le> x then int (bit_length (nat \<lfloor>x\<rfloor>)) - 1
                 else - int (bit_length (nat (\<lceil>1 / x\<rceil> - 1))))"

text \<open>The distance between neighbouring doubles at a positive real \<open>x\<close>: \<open>2^(e - 52)\<close>.\<close>

definition ulp :: "real \<Rightarrow> real" where
  "ulp x = (let e = exponent x in if 52 \<le> e then 2 ^ nat (e - 52) else 1 / 2 ^ nat (52 - e))"

definition round_half_even :: "real \<Rightarrow> int" where
  "round_half_even y =
     (let f = \<lfloor>y\<rfloor>; r = y - of_int f
      in if r < 1 / 2 then f else if 1 / 2 < r then f + 1 else if even f then f else f + 1)"

text \<open>The double nearest to a real: the value that a decimal literal denotes and that
  \<^verbatim>\<open>float(n)\<close> returns for an \<^verbatim>\<open>int\<close>.\<close>

definition round_double :: "real \<Rightarrow> real" where
  "round_double x =
     (if x = 0 then 0
      else let u = ulp \<bar>x\<bar> in sgn x * of_int (round_half_even (\<bar>x\<bar> / u)) * u)"

text \<open>Float multiplication and addition. An operand that is an \<^verbatim>\<open>int\<close> or a decimal
  literal is converted to its double first; rounding leaves a double as it is.\<close>

definition fmul :: "real \<Rightarrow> real \<Rightarrow> real" where
  "fmul x y = round_double (round_double x * round_double y)"

definition fadd :: "real \<Rightarrow> real \<Rightarrow> real" where
  "fadd x y = round_double (round_double x + round_double y)"

declare bit_length.simps [simp del]

section \<open>Pool-First policy (long\_ratio\_sweep\_pool\_vs\_traditional.py)\<close>

text \<open>
  \<^verbatim>\<open>PoolFirstPolicy.__init__(core, max_size)\<close>: \<^verbatim>\<open>allocated = core\<close>,
  \<^verbatim>\<open>active = 0\<close>, \<^verbatim>\<open>idle = deque(range(core))\<close>. \<^verbatim>\<open>range\<close> of a
  negative number is empty.
\<close>

record PoolFirstPolicy =
  core :: int
  max_size :: int
  allocated :: int
  active :: int
  idle :: "int list"

definition PoolFirstPolicy_init :: "int \<Rightarrow> int \<Rightarrow> PoolFirstPolicy" where
  "PoolFirstPolicy_init c m =
     \<lparr>core = c, max_size = m, allocated = c, active = 0, idle = map int [0..<nat c]\<rparr>"

text \<open>\<^verbatim>\<open>acquire_slot\<close> returns its boolean together with the mutated policy.\<close>

definition acquire_slot :: "PoolFirstPolicy \<Rightarrow> bool \<times> PoolFirstPolicy" where
  "acquire_slot p =
     (if idle p \<noteq> [] then (True, p\<lparr>idle := tl (idle p), active := active p + 1\<rparr>)
      else if allocated p < max_size p
        then (True, p\<lparr>allocated := allocated p + 1, active := active p + 1\<rparr>)
      else (False, p))"

definition release_slot :: "PoolFirstPolicy \<Rightarrow> PoolFirstPolicy" where
  "release_slot p =
     (if active p > 0 then p\<lparr>active := active p - 1, idle := idle p @ [1]\<rparr> else p)"

text \<open>
  \<^verbatim>\<open>PoolPolicy\<close> of request\_size\_sweep\_pool\_vs\_traditional.py has the same fields and
  the same two method bodies under the names \<^verbatim>\<open>on_admit(_req)\<close> and
  \<^verbatim>\<open>on_release()\<close>; the request argument is ignored.
\<close>

definition on_admit :: "PoolFirstPolicy \<Rightarrow> bool \<times> PoolFirstPolicy" where
  "on_admit p =
     (if idle p \<noteq> [] then (True, p\<lparr>idle := tl (idle p), active := active p + 1\<rparr>)
      else if allocated p < max_size p
        then (True, p\<lparr>allocated := allocated p + 1, active := active p + 1\<rparr>)
      else (False, p))"

definition on_release :: "PoolFirstPolicy \<Rightarrow> PoolFirstPolicy" where
  "on_release p =
     (if active p > 0 then p\<lparr>active := active p - 1, idle := idle p @ [1]\<rparr> else p)"

text \<open>A call sequence against one pool: the driver only ever calls these two methods.\<close>

datatype pool_call = Acquire | Release

fun pool_calls :: "PoolFirstPolicy \<Rightarrow> pool_call list \<Rightarrow> PoolFirstPolicy" where
  "pool_calls p [] = p"
| "pool_calls p (Acquire # cs) = pool_calls (snd (acquire_slot p)) cs"
| "pool_calls p (Release # cs) = pool_calls (release_slot p) cs"

definition pool_inv :: "PoolFirstPolicy \<Rightarrow> bool" where
  "pool_inv p \<longleftrightarrow>
     active p + int (length (idle p)) = allocated p \<and> 0 \<le> active p \<and>
     core p \<le> allocated p \<and> allocated p \<le> max_size p"

section \<open>Controllers (ab\_test\_simulator.py, tune\_aimd.py)\<close>

text \<open>The window-metrics dictionary handed to \<^verbatim>\<open>Controller.update\<close>.\<close>

record window_metrics =
  rate_limit :: real
  burst :: real
  p95_latency_ms :: real
  p95_ttft_ms :: real
  gc_freq :: real

text \<open>
  A Python number that is an \<^verbatim>\<open>int\<close> or a \<^verbatim>\<open>float\<close>, with the real number it
  denotes and the result of \<^verbatim>\<open>int(x)\<close>. In mixed arithmetic the \<^verbatim>\<open>int\<close> operand
  is converted to a double, which \<^const>\<open>fmul\<close> and \<^const>\<open>fadd\<close> do with their
  operands.
\<close>

datatype py_num = PyInt int | PyFloat real

fun num_val :: "py_num \<Rightarrow> real" where
  "num_val (PyInt n) = real_of_int n"
| "num_val (PyFloat x) = x"

fun num_int :: "py_num \<Rightarrow> int" where
  "num_int (PyInt n) = n"
| "num_int (PyFloat x) = py_int x"

text \<open>\<^verbatim>\<open>min(a, b)\<close> for an \<^verbatim>\<open>int\<close> \<open>a\<close>: Python returns \<open>b\<close> when \<open>b < a\<close> and
  \<open>a\<close> otherwise; an \<^verbatim>\<open>int\<close> and a \<^verbatim>\<open>float\<close> are compared exactly.\<close>

definition py_min :: "int \<Rightarrow> py_num \<Rightarrow> py_num" where
  "py_min a b = (if num_val b < real_of_int a then b else PyInt a)"

text \<open>\<^verbatim>\<open>x + 1\<close>: exact on an \<^verbatim>\<open>int\<close>, a float sum on a \<^verbatim>\<open>float\<close>.\<close>

fun add_one :: "py_num \<Rightarrow> py_num" where
  "add_one (PyInt n) = PyInt (n + 1)"
| "add_one (PyFloat x) = PyFloat (fadd x 1)"

text \<open>
  \<^verbatim>\<open>AimdController\<close>: \<^verbatim>\<open>cwnd\<close> starts as the integer \<^verbatim>\<open>init_c\<close>, becomes a
  float when it is multiplied by 1.5 and an integer again when it is set to
  \<^verbatim>\<open>max_c\<close> or to the threshold; \<^verbatim>\<open>ssthresh\<close> is always an integer. The
  products \<^verbatim>\<open>cwnd * 0.7\<close> and \<^verbatim>\<open>cwnd * 1.5\<close> are float products.
\<close>

record AimdController =
  min_c :: int
  max_c :: int
  cwnd :: py_num
  ssthresh :: int
  cooldown :: int

definition AimdController_init :: "int \<Rightarrow> int \<Rightarrow> int \<Rightarrow> AimdController" where
  "AimdController_init mn mx init_c =
     \<lparr>min_c = mn, max_c = mx, cwnd = PyInt init_c, ssthresh = 32, cooldown = 0\<rparr>"

definition aimd_current_limit :: "AimdController \<Rightarrow> int" where
  "aimd_current_limit c = max (min_c c) (min (max_c c) (num_int (cwnd c)))"

definition aimd_congested :: "window_metrics \<Rightarrow> bool" where
  "aimd_congested m \<longleftrightarrow>
     rate_limit m > 0.06 \<or> burst m > 0.03 \<or> p95_latency_ms m > 2200 \<or> gc_freq m > 4.0"

definition aimd_update :: "AimdController \<Rightarrow> int \<Rightarrow> window_metrics \<Rightarrow> AimdController" where
  "aimd_update c second m =
     (if cooldown c > 0 then c\<lparr>cooldown := cooldown c - 1\<rparr>
      else if aimd_congested m then
        (let ss = max (min_c c) (py_int (fmul (num_val (cwnd c)) 0.7))
         in c\<lparr>ssthresh := ss,
              cwnd := PyInt (max (min_c c) ss),
              cooldown := 2\<rparr>)
      else if num_val (cwnd c) < real_of_int (ssthresh c)
        then c\<lparr>cwnd := py_min (max_c c) (PyFloat (fmul (num_val (cwnd c)) 1.5))\<rparr>
      else c\<lparr>cwnd := py_min (max_c c) (add_one (cwnd c))\<rparr>)"

text \<open>\<^verbatim>\<open>AimdParams\<close> and \<^verbatim>\<open>TunableAimdController\<close> of tune\_aimd.py. Field names
  that the base controller already uses carry a suffix. The float fields of the parameters
  hold doubles. \<^verbatim>\<open>cwnd\<close> and \<^verbatim>\<open>ssthresh\<close> start as \<^verbatim>\<open>float(init_c)\<close> and
  \<^verbatim>\<open>float(ssthresh)\<close>, and the integer bounds are converted by \<^verbatim>\<open>float(...)\<close>
  where the source does so.\<close>

record AimdParams =
  min_c_p :: int
  max_c_p :: int
  init_c_p :: int
  ssthresh_p :: int
  decrease_factor :: real
  cooldown_windows :: int
  rate_limit_threshold :: real
  burst_threshold :: real
  p95_threshold_ms :: real
  gc_threshold :: real
  slow_start_factor :: real
  ai_step :: real

record TunableAimdController =
  params :: AimdParams
  cwnd_t :: real
  ssthresh_t :: real
  cooldown_t :: int

definition TunableAimdController_init :: "AimdParams \<Rightarrow> TunableAimdController" where
  "TunableAimdController_init q =
     \<lparr>params = q, cwnd_t = round_double (real_of_int (init_c_p q)),
      ssthresh_t = round_double (real_of_int (ssthresh_p q)), cooldown_t = 0\<rparr>"

definition tunable_current_limit :: "TunableAimdController \<Rightarrow> int" where
  "tunable_current_limit c =
     max (min_c_p (params c)) (min (max_c_p (params c)) (py_int (cwnd_t c)))"

definition tunable_congested :: "AimdParams \<Rightarrow> window_metrics \<Rightarrow> bool" where
  "tunable_congested q m \<longleftrightarrow>
     rate_limit m > rate_limit_threshold q \<or> burst m > burst_threshold q \<or>
     p95_latency_ms m > p95_threshold_ms q \<or> gc_freq m > gc_threshold q"

definition tunable_update ::
  "TunableAimdController \<Rightarrow> int \<Rightarrow> window_metrics \<Rightarrow> TunableAimdController" where
  "tunable_update c second m =
     (if cooldown_t c > 0 then c\<lparr>cooldown_t := cooldown_t c - 1\<rparr>
      else if tunable_congested (params c) m then
        (let ss = max (real_of_int (min_c_p (params c)))
                      (fmul (cwnd_t c) (decrease_factor (params c)))
         in c\<lparr>ssthresh_t := ss,
              cwnd_t := max (round_double (real_of_int (min_c_p (params c)))) ss,
              cooldown_t := cooldown_windows (params c)\<rparr>)
      else if cwnd_t c < ssthresh_t c
        then c\<lparr>cwnd_t := min (round_double (real_of_int (max_c_p (params c))))
                              (fmul (cwnd_t c) (slow_start_factor (params c)))\<rparr>
      else c\<lparr>cwnd_t := min (round_double (real_of_int (max_c_p (params c))))
                           (fadd (cwnd_t c) (ai_step (params c)))\<rparr>)"

text \<open>
  The run driver takes any object with \<^verbatim>\<open>current_limit()\<close> and
  \<^verbatim>\<open>update(second, metrics)\<close>; the three classes of the repository are the cases of a
  datatype. \<^verbatim>\<open>FixedController\<close> holds only its limit and its update is \<^verbatim>\<open>pass\<close>.
\<close>

datatype controller =
  Fixed int
| Aimd AimdController
| Tuned TunableAimdController

fun current_limit :: "controller \<Rightarrow> int" where
  "current_limit (Fixed l) = l"
| "current_limit (Aimd c) = aimd_current_limit c"
| "current_limit (Tuned c) = tunable_current_limit c"

fun update :: "controller \<Rightarrow> int \<Rightarrow> window_metrics \<Rightarrow> controller" where
  "update (Fixed l) second m = Fixed l"
| "update (Aimd c) second m = Aimd (aimd_update c second m)"
| "update (Tuned c) second m = Tuned (tunable_update c second m)"

text \<open>A run feeds the controller one metrics window per simulated second, counted from a
  starting second.\<close>

fun updates :: "controller \<Rightarrow> int \<Rightarrow> window_metrics list \<Rightarrow> controller" where
  "updates c second [] = c"
| "updates c second (m # ms) = updates (update c second m) (second + 1) ms"

text \<open>The configured range of a controller; for the fixed controller the range is the single
  configured limit.\<close>

fun limit_min :: "controller \<Rightarrow> int" where
  "limit_min (Fixed l) = l"
| "limit_min (Aimd c) = min_c c"
| "limit_min (Tuned c) = min_c_p (params c)"

fun limit_max :: "controller \<Rightarrow> int" where
  "limit_max (Fixed l) = l"
| "limit_max (Aimd c) = max_c c"
| "limit_max (Tuned c) = max_c_p (params c)"

section \<open>Nodes (ab\_test\_simulator.py)\<close>

text \<open>
  \<^verbatim>\<open>NodeState\<close>. The constructor takes the first five fields; \<^verbatim>\<open>__post_init__\<close> sets
  both token budgets to their limits and the burst window to an empty deque.
\<close>

record NodeState =
  node_id :: int
  rpm_limit :: int
  tpm_limit :: int
  max_physical_concurrency :: int
  burst_rps_limit :: real
  inflight :: int
  rpm_tokens :: real
  tpm_tokens :: real
  last_refill_ts :: real
  starts_window :: "real list"

definition NodeState_init :: "int \<Rightarrow> int \<Rightarrow> int \<Rightarrow> int \<Rightarrow> real \<Rightarrow> NodeState" where
  "NodeState_init i rpm tpm phys brst =
     \<lparr>node_id = i, rpm_limit = rpm, tpm_limit = tpm, max_physical_concurrency = phys,
      burst_rps_limit = brst, inflight = 0, rpm_tokens = real_of_int rpm,
      tpm_tokens = real_of_int tpm, last_refill_ts = 0, starts_window = []\<rparr>"

text \<open>The \<^verbatim>\<open>while\<close> loop of \<^verbatim>\<open>refill\<close> pops the head of the burst window as long as
  it is older than one second: \<^const>\<open>dropWhile\<close>.\<close>

definition refill :: "NodeState \<Rightarrow> real \<Rightarrow> NodeState" where
  "refill n now =
     (let dt = max 0 (now - last_refill_ts n) in
      if dt \<le> 0 then n
      else n\<lparr>rpm_tokens := min (real_of_int (rpm_limit n))
                               (rpm_tokens n + dt * (real_of_int (rpm_limit n) / 60)),
             tpm_tokens := min (real_of_int (tpm_limit n))
                               (tpm_tokens n + dt * (real_of_int (tpm_limit n) / 60)),
             last_refill_ts := now,
             starts_window := dropWhile (\<lambda>t. t < now - 1) (starts_window n)\<rparr>)"

text \<open>\<^verbatim>\<open>can_start\<close> returns its pair \<open>(ok, reason)\<close> together with the node as the call
  leaves it.\<close>

definition can_start :: "NodeState \<Rightarrow> real \<Rightarrow> int \<Rightarrow> int \<Rightarrow> (bool \<times> string) \<times> NodeState" where
  "can_start n now token_cost allowed_concurrency =
     (let n' = refill n now in
      if inflight n' \<ge> min (max_physical_concurrency n') allowed_concurrency
        then ((False, ''CONCURRENCY''), n')
      else if real (length (starts_window n')) \<ge> burst_rps_limit n'
        then ((False, ''BURST''), n')
      else if rpm_tokens n' < 1 then ((False, ''RATE_RPM''), n')
      else if tpm_tokens n' < real_of_int token_cost then ((False, ''RATE_TPM''), n')
      else ((True, ''''), n'))"

definition start :: "NodeState \<Rightarrow> real \<Rightarrow> int \<Rightarrow> NodeState" where
  "start n now token_cost =
     n\<lparr>rpm_tokens := rpm_tokens n - 1,
       tpm_tokens := tpm_tokens n - real_of_int token_cost,
       inflight := inflight n + 1,
       starts_window := starts_window n @ [now]\<rparr>"

definition finish :: "NodeState \<Rightarrow> NodeState" where
  "finish n = (if inflight n > 0 then n\<lparr>inflight := inflight n - 1\<rparr> else n)"

text \<open>A sequence of method calls on one node.\<close>

datatype node_call =
  Refill real
| CanStart real int int
| Start real int
| Finish

fun apply_call :: "NodeState \<Rightarrow> node_call \<Rightarrow> NodeState" where
  "apply_call n (Refill now) = refill n now"
| "apply_call n (CanStart now k a) = snd (can_start n now k a)"
| "apply_call n (Start now k) = start n now k"
| "apply_call n Finish = finish n"

fun start_cost_ok :: "node_call \<Rightarrow> bool" where
  "start_cost_ok (Start now k) = (0 \<le> k)"
| "start_cost_ok _ = True"

definition within_capacity :: "NodeState \<Rightarrow> bool" where
  "within_capacity n \<longleftrightarrow>
     rpm_tokens n \<le> real_of_int (rpm_limit n) \<and> tpm_tokens n \<le> real_of_int (tpm_limit n)"

section \<open>Requests (ab\_test\_simulator.py)\<close>

record Request =
  req_id :: int
  arrival_ts :: real
  input_tokens :: int
  output_tokens :: int
  stream_chunks :: int
  ttft_delay_sec :: real
  service_time_sec :: real

definition total_tokens :: "Request \<Rightarrow> int" where
  "total_tokens r = input_tokens r + output_tokens r"

section \<open>Bucket allocators (adaptive\_bucket\_ab.py)\<close>

text \<open>
  \<^verbatim>\<open>percentile\<close> of adaptive\_bucket\_ab.py (full\_pipeline\_vs\_traditional.py has the same
  function): the index is \<open>int(p / 100 * len) - 1\<close> clamped into the list. The values are
  token counts.
\<close>

definition percentile_bucket :: "int list \<Rightarrow> real \<Rightarrow> real" where
  "percentile_bucket values q =
     (if values = [] then 0
      else let arr = sort values;
               k = max 0 (min (int (length arr) - 1)
                              (py_int ((q / 100) * real (length arr)) - 1))
           in real_of_int (arr ! nat k))"

text \<open>
  \<^verbatim>\<open>AdaptiveBucketAllocator\<close> with the fields it inherits from
  \<^verbatim>\<open>StaticBucketAllocator\<close>. The two per-bucket budget lists carry a suffix (a node has
  fields of the same names).
\<close>

record AdaptiveBucketAllocator =
  boundaries :: "int list"
  shares :: "real list"
  total_rpm :: int
  total_tpm :: int
  rpm_tokens_b :: "real list"
  tpm_tokens_b :: "real list"
  last_refill :: real
  token_hist :: "int list"
  win_arrival :: "int list"
  win_accepted :: "int list"
  win_tokens :: "int list"
  win_reject :: "int list"

definition AdaptiveBucketAllocator_init :: "int \<Rightarrow> int \<Rightarrow> AdaptiveBucketAllocator" where
  "AdaptiveBucketAllocator_init rpm tpm =
     \<lparr>boundaries = [300, 1200, 3800], shares = [0.35, 0.35, 0.20, 0.10],
      total_rpm = rpm, total_tpm = tpm,
      rpm_tokens_b = [0, 0, 0, 0], tpm_tokens_b = [0, 0, 0, 0], last_refill = 0,
      token_hist = [], win_arrival = [0, 0, 0, 0], win_accepted = [0, 0, 0, 0],
      win_tokens = [0, 0, 0, 0], win_reject = [0, 0, 0, 0]\<rparr>"

text \<open>\<^verbatim>\<open>bucket_of\<close> reads a list of three boundaries.\<close>

definition bucket_index :: "int list \<Rightarrow> int \<Rightarrow> nat" where
  "bucket_index bs tokens =
     (if tokens \<le> bs ! 0 then 0
      else if tokens \<le> bs ! 1 then 1
      else if tokens \<le> bs ! 2 then 2
      else 3)"

definition bucket_of :: "AdaptiveBucketAllocator \<Rightarrow> int \<Rightarrow> nat" where
  "bucket_of a tokens = bucket_index (boundaries a) tokens"

text \<open>One round of the \<^verbatim>\<open>for i in range(4)\<close> loop of \<^verbatim>\<open>refill\<close>, on one pair of
  budget lists; \<open>eff_rpm\<close> and \<open>eff_tpm\<close> are the totals the loop multiplies the share with.\<close>

definition refill_bucket ::
  "real \<Rightarrow> real \<Rightarrow> real list \<Rightarrow> real \<Rightarrow> real list \<times> real list \<Rightarrow> nat \<Rightarrow> real list \<times> real list" where
  "refill_bucket eff_rpm eff_tpm sh dt budgets i =
     (let rpm_rate = (eff_rpm * (sh ! i)) / 60;
          tpm_rate = (eff_tpm * (sh ! i)) / 60
      in ((fst budgets)[i := min (rpm_rate * 3) (fst budgets ! i + dt * rpm_rate)],
          (snd budgets)[i := min (tpm_rate * 3) (snd budgets ! i + dt * tpm_rate)]))"

definition refill_b :: "AdaptiveBucketAllocator \<Rightarrow> real \<Rightarrow> AdaptiveBucketAllocator" where
  "refill_b a now =
     (let dt = max 0 (now - last_refill a) in
      if dt \<le> 0 then a
      else let budgets = foldl (refill_bucket (real_of_int (total_rpm a)) (real_of_int (total_tpm a))
                                  (shares a) dt)
                               (rpm_tokens_b a, tpm_tokens_b a) [0..<4]
           in a\<lparr>rpm_tokens_b := fst budgets, tpm_tokens_b := snd budgets, last_refill := now\<rparr>)"

definition can_admit :: "AdaptiveBucketAllocator \<Rightarrow> real \<Rightarrow> nat \<Rightarrow> int \<Rightarrow> bool \<times> AdaptiveBucketAllocator" where
  "can_admit a now bucket tokens =
     (let a' = refill_b a now
      in (rpm_tokens_b a' ! bucket \<ge> 1 \<and> tpm_tokens_b a' ! bucket \<ge> real_of_int tokens, a'))"

definition consume :: "AdaptiveBucketAllocator \<Rightarrow> nat \<Rightarrow> int \<Rightarrow> AdaptiveBucketAllocator" where
  "consume a bucket tokens =
     a\<lparr>rpm_tokens_b := (rpm_tokens_b a)[bucket := rpm_tokens_b a ! bucket - 1],
       tpm_tokens_b := (tpm_tokens_b a)[bucket := tpm_tokens_b a ! bucket - real_of_int tokens]\<rparr>"

text \<open>\<^verbatim>\<open>deque(maxlen=m).append(x)\<close>: a full deque drops its oldest element.\<close>

definition append_maxlen :: "nat \<Rightarrow> 'a list \<Rightarrow> 'a \<Rightarrow> 'a list" where
  "append_maxlen m xs x = (let ys = xs @ [x] in drop (length ys - m) ys)"

definition record_arrival :: "AdaptiveBucketAllocator \<Rightarrow> int \<Rightarrow> AdaptiveBucketAllocator" where
  "record_arrival a tokens =
     (let b = bucket_of a tokens
      in a\<lparr>win_arrival := (win_arrival a)[b := win_arrival a ! b + 1],
           token_hist := append_maxlen 12000 (token_hist a) tokens\<rparr>)"

definition record_accept :: "AdaptiveBucketAllocator \<Rightarrow> int \<Rightarrow> AdaptiveBucketAllocator" where
  "record_accept a tokens =
     (let b = bucket_of a tokens
      in a\<lparr>win_accepted := (win_accepted a)[b := win_accepted a ! b + 1],
           win_tokens := (win_tokens a)[b := win_tokens a ! b + tokens]\<rparr>)"

definition record_reject :: "AdaptiveBucketAllocator \<Rightarrow> int \<Rightarrow> AdaptiveBucketAllocator" where
  "record_reject a tokens =
     (let b = bucket_of a tokens
      in a\<lparr>win_reject := (win_reject a)[b := win_reject a ! b + 1]\<rparr>)"

definition smooth_boundary :: "int \<Rightarrow> int \<Rightarrow> real \<Rightarrow> int" where
  "smooth_boundary old_v new_v max_step_ratio =
     (let raw = py_int (0.7 * real_of_int old_v + 0.3 * real_of_int new_v);
          step = py_int (real_of_int old_v * max_step_ratio);
          lo = max 32 (old_v - step);
          hi = old_v + step
      in max lo (min hi raw))"

definition update_boundaries :: "AdaptiveBucketAllocator \<Rightarrow> AdaptiveBucketAllocator" where
  "update_boundaries a =
     (let data = token_hist a in
      if length data < 200 then a
      else let p40 = py_int (percentile_bucket data 40);
               p75 = py_int (percentile_bucket data 75);
               p92 = py_int (percentile_bucket data 92);
               b1 = smooth_boundary (boundaries a ! 0) p40 0.15;
               b2 = smooth_boundary (boundaries a ! 1) (max (p40 + 64) p75) 0.15;
               b3 = smooth_boundary (boundaries a ! 2) (max (p75 + 256) p92) 0.15
           in if b1 < b2 \<and> b2 < b3 then a\<lparr>boundaries := [b1, b2, b3]\<rparr> else a)"

text \<open>
  The share computation, which \<^verbatim>\<open>_update_shares\<close> and
  \<^verbatim>\<open>FullPipelinePolicy._rebalance_buckets\<close> both contain: the clamped score of every
  bucket from the four window counters, then the normalised targets, the step of at most 0.05
  towards them, and the final normalisation. The three sums carry \<open>eps = 1e-9\<close>, so the
  divisions by them never divide by zero; the divisions by \<open>s\<close> and \<open>s2\<close> raise
  \<^verbatim>\<open>ZeroDivisionError\<close> when the sum is zero.
\<close>

definition share_scores :: "int list \<Rightarrow> int list \<Rightarrow> int list \<Rightarrow> int list \<Rightarrow> real list" where
  "share_scores w_arrival w_accepted w_tokens w_reject =
     (let eps = 1 / 10 ^ 9;
          a_sum = real_of_int (sum_list w_arrival) + eps;
          ok_sum = real_of_int (sum_list w_accepted) + eps;
          tok_sum = real_of_int (sum_list w_tokens) + eps
      in map (\<lambda>i.
            let req_share = real_of_int (w_arrival ! i) / a_sum;
                throughput_share = real_of_int (w_accepted ! i) / ok_sum;
                token_share = real_of_int (w_tokens ! i) / tok_sum;
                risk = real_of_int (w_reject ! i) / real_of_int (max 1 (w_arrival ! i));
                score = 0.35 * req_share + 0.35 * throughput_share + 0.20 * token_share
                        - 0.25 * risk
            in max 0.10 (min 0.50 score)) [0..<4])"

definition share_step :: "real \<Rightarrow> real \<Rightarrow> real" where
  "share_step old tgt = (let delta = max (- 0.05) (min 0.05 (tgt - old)) in old + delta)"

definition rebalance_shares :: "real list \<Rightarrow> real list \<Rightarrow> py_error + real list" where
  "rebalance_shares new_shares old_shares =
     (let s = sum_list new_shares in
      if s = 0 then Inl ZeroDivisionError
      else let target = map (\<lambda>x. x / s) new_shares;
               updated = map (\<lambda>(old, tgt). share_step old tgt) (zip old_shares target);
               s2 = sum_list updated
           in if s2 = 0 then Inl ZeroDivisionError
              else Inr (map (\<lambda>x. x / s2) updated))"

definition update_shares :: "AdaptiveBucketAllocator \<Rightarrow> py_error + AdaptiveBucketAllocator" where
  "update_shares a =
     (case rebalance_shares
             (share_scores (win_arrival a) (win_accepted a) (win_tokens a) (win_reject a))
             (shares a) of
        Inl e \<Rightarrow> Inl e
      | Inr sh \<Rightarrow> Inr (a\<lparr>shares := sh\<rparr>))"

definition on_window_end :: "AdaptiveBucketAllocator \<Rightarrow> py_error + AdaptiveBucketAllocator" where
  "on_window_end a =
     (case update_shares (update_boundaries a) of
        Inl e \<Rightarrow> Inl e
      | Inr a' \<Rightarrow> Inr (a'\<lparr>win_arrival := [0, 0, 0, 0], win_accepted := [0, 0, 0, 0],
                          win_tokens := [0, 0, 0, 0], win_reject := [0, 0, 0, 0]\<rparr>))"

text \<open>The calls the run driver \<^verbatim>\<open>run_one\<close> makes on an adaptive allocator; the bucket of
  \<^verbatim>\<open>can_admit\<close> and \<^verbatim>\<open>consume\<close> is always \<^verbatim>\<open>bucket_of\<close> of the request's tokens.\<close>

datatype allocator_call =
  RecordArrival int
| RecordAccept int
| RecordReject int
| CanAdmit real int
| Consume int
| OnWindowEnd

fun apply_allocator_call :: "AdaptiveBucketAllocator \<Rightarrow> allocator_call \<Rightarrow> py_error + AdaptiveBucketAllocator" where
  "apply_allocator_call a (RecordArrival t) = Inr (record_arrival a t)"
| "apply_allocator_call a (RecordAccept t) = Inr (record_accept a t)"
| "apply_allocator_call a (RecordReject t) = Inr (record_reject a t)"
| "apply_allocator_call a (CanAdmit now t) = Inr (snd (can_admit a now (bucket_of a t) t))"
| "apply_allocator_call a (Consume t) = Inr (consume a (bucket_of a t) t)"
| "apply_allocator_call a OnWindowEnd = on_window_end a"

fun allocator_calls :: "AdaptiveBucketAllocator \<Rightarrow> allocator_call list \<Rightarrow> py_error + AdaptiveBucketAllocator" where
  "allocator_calls a [] = Inr a"
| "allocator_calls a (c # cs) =
     (case apply_allocator_call a c of Inl e \<Rightarrow> Inl e | Inr a' \<Rightarrow> allocator_calls a' cs)"

definition strictly_increasing :: "int list \<Rightarrow> bool" where
  "strictly_increasing bs \<longleftrightarrow> length bs = 3 \<and> bs ! 0 < bs ! 1 \<and> bs ! 1 < bs ! 2"

definition shares_ok :: "real list \<Rightarrow> bool" where
  "shares_ok sh \<longleftrightarrow> length sh = 4 \<and> sum_list sh = 1 \<and> list_all (\<lambda>x. 0 < x \<and> x < 1) sh"

definition alloc_inv :: "AdaptiveBucketAllocator \<Rightarrow> bool" where
  "alloc_inv a \<longleftrightarrow> shares_ok (shares a) \<and> strictly_increasing (boundaries a)"

section \<open>Full-pipeline policy (full\_pipeline\_vs\_traditional.py)\<close>

text \<open>
  \<^verbatim>\<open>FullPipelinePolicy\<close>. Fields whose names the bucket allocator or a node already use
  carry the suffix \<open>_fp\<close>. The metrics dictionary of \<^verbatim>\<open>on_window\<close> has the four keys
  below.
\<close>

record pipeline_metrics =
  p95_ttft_ms_fp :: real
  p95_e2e_ms :: real
  sim_gc_freq :: real
  reject_rate :: real

record FullPipelinePolicy =
  fixed_limit :: int
  total_rpm_fp :: int
  total_tpm_fp :: int
  alpha :: real
  boundaries_fp :: "int list"
  shares_fp :: "real list"
  rpm_tokens_fp :: "real list"
  tpm_tokens_fp :: "real list"
  last_refill_fp :: real
  hist_tokens :: "int list"
  win_arrival_fp :: "int list"
  win_accept :: "int list"
  win_tokens_fp :: "int list"
  win_reject_fp :: "int list"
  est_ratio_ema :: real

definition FullPipelinePolicy_init :: "int \<Rightarrow> int \<Rightarrow> int \<Rightarrow> FullPipelinePolicy" where
  "FullPipelinePolicy_init rpm tpm cap =
     \<lparr>fixed_limit = cap, total_rpm_fp = rpm, total_tpm_fp = tpm, alpha = 1,
      boundaries_fp = [300, 1200, 3800], shares_fp = [0.35, 0.35, 0.20, 0.10],
      rpm_tokens_fp = [0, 0, 0, 0], tpm_tokens_fp = [0, 0, 0, 0], last_refill_fp = 0,
      hist_tokens = [], win_arrival_fp = [0, 0, 0, 0], win_accept = [0, 0, 0, 0],
      win_tokens_fp = [0, 0, 0, 0], win_reject_fp = [0, 0, 0, 0], est_ratio_ema = 1\<rparr>"

definition estimate_tokens :: "FullPipelinePolicy \<Rightarrow> Request \<Rightarrow> int \<times> FullPipelinePolicy" where
  "estimate_tokens p r =
     (let base = input_tokens r + py_int (real_of_int (output_tokens r) * 0.85);
          est = py_int (max 1 (real_of_int base * est_ratio_ema p * 1.08));
          b = bucket_index (boundaries_fp p) est
      in (est, p\<lparr>hist_tokens := append_maxlen 12000 (hist_tokens p) est,
                 win_arrival_fp := (win_arrival_fp p)[b := win_arrival_fp p ! b + 1]\<rparr>))"

text \<open>\<^verbatim>\<open>_refill\<close>: the bucket loop of the allocator, on the totals scaled by \<open>alpha\<close>.\<close>

definition refill_fp :: "FullPipelinePolicy \<Rightarrow> real \<Rightarrow> FullPipelinePolicy" where
  "refill_fp p now =
     (let dt = max 0 (now - last_refill_fp p) in
      if dt \<le> 0 then p
      else let eff_rpm = real_of_int (total_rpm_fp p) * alpha p;
               eff_tpm = real_of_int (total_tpm_fp p) * alpha p;
               budgets = foldl (refill_bucket eff_rpm eff_tpm (shares_fp p) dt)
                               (rpm_tokens_fp p, tpm_tokens_fp p) [0..<4]
           in p\<lparr>rpm_tokens_fp := fst budgets, tpm_tokens_fp := snd budgets,
                 last_refill_fp := now\<rparr>)"

definition admit :: "FullPipelinePolicy \<Rightarrow> real \<Rightarrow> int \<Rightarrow> bool \<times> FullPipelinePolicy" where
  "admit p now est_tokens =
     (let p' = refill_fp p now;
          b = bucket_index (boundaries_fp p') est_tokens
      in if rpm_tokens_fp p' ! b \<ge> 1 \<and> tpm_tokens_fp p' ! b \<ge> real_of_int est_tokens
         then (True, p'\<lparr>rpm_tokens_fp := (rpm_tokens_fp p')[b := rpm_tokens_fp p' ! b - 1],
                        tpm_tokens_fp := (tpm_tokens_fp p')[b := tpm_tokens_fp p' ! b
                                                                 - real_of_int est_tokens],
                        win_accept := (win_accept p')[b := win_accept p' ! b + 1],
                        win_tokens_fp := (win_tokens_fp p')[b := win_tokens_fp p' ! b + est_tokens]\<rparr>)
         else (False, p'\<lparr>win_reject_fp := (win_reject_fp p')[b := win_reject_fp p' ! b + 1]\<rparr>))"

definition on_result :: "FullPipelinePolicy \<Rightarrow> Request \<Rightarrow> bool \<Rightarrow> FullPipelinePolicy" where
  "on_result p r accepted =
     (if \<not> accepted then p
      else let est = max 1 (input_tokens r + py_int (real_of_int (output_tokens r) * 0.85));
               ratio = real_of_int (total_tokens r) / real_of_int est
           in p\<lparr>est_ratio_ema := 0.9 * est_ratio_ema p + 0.1 * ratio\<rparr>)"

definition smooth_boundary_fp :: "int \<Rightarrow> int \<Rightarrow> int" where
  "smooth_boundary_fp old new =
     (let raw = py_int (0.7 * real_of_int old + 0.3 * real_of_int new);
          step = py_int (real_of_int old * 0.15)
      in max (old - step) (min (old + step) raw))"

text \<open>\<^verbatim>\<open>_rebalance_buckets\<close> returns before anything else when the history has fewer than
  200 entries: then neither the shares nor the window counters change.\<close>

definition rebalance_buckets :: "FullPipelinePolicy \<Rightarrow> py_error + FullPipelinePolicy" where
  "rebalance_buckets p =
     (if length (hist_tokens p) < 200 then Inr p
      else let arr = hist_tokens p;
               p40 = py_int (percentile_bucket arr 40);
               p75 = py_int (percentile_bucket arr 75);
               p92 = py_int (percentile_bucket arr 92);
               b1 = smooth_boundary_fp (boundaries_fp p ! 0) p40;
               b2 = smooth_boundary_fp (boundaries_fp p ! 1) (max (p40 + 64) p75);
               b3 = smooth_boundary_fp (boundaries_fp p ! 2) (max (p75 + 256) p92);
               p1 = (if b1 < b2 \<and> b2 < b3 then p\<lparr>boundaries_fp := [b1, b2, b3]\<rparr> else p)
           in case rebalance_shares
                     (share_scores (win_arrival_fp p1) (win_accept p1) (win_tokens_fp p1)
                        (win_reject_fp p1))
                     (shares_fp p1) of
                Inl e \<Rightarrow> Inl e
              | Inr sh \<Rightarrow>
                  Inr (p1\<lparr>shares_fp := sh,
                          win_arrival_fp := [0, 0, 0, 0], win_accept := [0, 0, 0, 0],
                          win_tokens_fp := [0, 0, 0, 0], win_reject_fp := [0, 0, 0, 0]\<rparr>))"

definition on_window :: "FullPipelinePolicy \<Rightarrow> pipeline_metrics \<Rightarrow> py_error + FullPipelinePolicy" where
  "on_window p m =
     rebalance_buckets
       (if p95_ttft_ms_fp m > 1400 \<or> sim_gc_freq m > 1.8 \<or> reject_rate m > 0.50
          then p\<lparr>alpha := max 0.65 (alpha p * 0.92)\<rparr>
        else if p95_ttft_ms_fp m < 1150 \<and> sim_gc_freq m < 1.2 \<and> reject_rate m < 0.40
          then p\<lparr>alpha := min 1.0 (alpha p + 0.02)\<rparr>
        else p)"

text \<open>The calls the engine \<^verbatim>\<open>run_engine\<close> makes on the policy.\<close>

datatype policy_call =
  EstimateTokens Request
| Admit real int
| OnResult Request bool
| OnWindow pipeline_metrics

fun apply_policy_call :: "FullPipelinePolicy \<Rightarrow> policy_call \<Rightarrow> py_error + FullPipelinePolicy" where
  "apply_policy_call p (EstimateTokens r) = Inr (snd (estimate_tokens p r))"
| "apply_policy_call p (Admit now est) = Inr (snd (admit p now est))"
| "apply_policy_call p (OnResult r accepted) = Inr (on_result p r accepted)"
| "apply_policy_call p (OnWindow m) = on_window p m"

fun policy_calls :: "FullPipelinePolicy \<Rightarrow> policy_call list \<Rightarrow> py_error + FullPipelinePolicy" where
  "policy_calls p [] = Inr p"
| "policy_calls p (c # cs) =
     (case apply_policy_call p c of Inl e \<Rightarrow> Inl e | Inr p' \<Rightarrow> policy_calls p' cs)"

definition policy_inv :: "FullPipelinePolicy \<Rightarrow> bool" where
  "policy_inv p \<longleftrightarrow> 0.65 \<le> alpha p \<and> alpha p \<le> 1 \<and> shares_ok (shares_fp p)"

text \<open>The assignment to \<^verbatim>\<open>alpha\<close> at the head of \<^verbatim>\<open>on_window\<close>, as a function of the old value.\<close>

definition alpha_step :: "real \<Rightarrow> pipeline_metrics \<Rightarrow> real" where
  "alpha_step x m =
     (if p95_ttft_ms_fp m > 1400 \<or> sim_gc_freq m > 1.8 \<or> reject_rate m > 0.50
        then max 0.65 (x * 0.92)
      else if p95_ttft_ms_fp m < 1150 \<and> sim_gc_freq m < 1.2 \<and> reject_rate m < 0.40
        then min 1 (x + 0.02)
      else x)"

section \<open>The run driver (ab\_test\_simulator.py)\<close>

text \<open>\<^verbatim>\<open>Inflight\<close>; its \<^verbatim>\<open>node_id\<close> field carries a suffix.\<close>

record Inflight =
  req :: Request
  start_ts :: real
  finish_ts :: real
  node_id_f :: int

text \<open>One entry of the per-second time series, a dictionary in the source.\<close>

record sec_record =
  second_s :: int
  accepted_s :: int
  rejected_s :: int
  burst_reject_s :: int
  rate_reject_s :: int
  p95_latency_ms_s :: real
  p95_ttft_ms_s :: real
  controller_limit_s :: int
  sim_gc_freq_s :: int

text \<open>
  \<^verbatim>\<open>percentile\<close> of ab\_test\_simulator.py: the index is \<open>ceil(p / 100 * len) - 1\<close>
  clamped into the list.
\<close>

definition percentile :: "real list \<Rightarrow> real \<Rightarrow> real" where
  "percentile values q =
     (if values = [] then 0
      else let arr = sort values;
               k = min (int (length arr) - 1) (max 0 (\<lceil>(q / 100) * real (length arr)\<rceil> - 1))
           in arr ! nat k)"

definition make_nodes :: "NodeState list" where
  "make_nodes =
     map (\<lambda>i. let rpm = 1150 + i * 80;
                   tpm = 520000 + i * 45000
               in NodeState_init i rpm tpm (14 + i) (max 6.0 ((real_of_int rpm / 60) * 0.8)))
         [0, 1, 2, 3, 4, 5]"

text \<open>
  The local variables of \<^verbatim>\<open>run_simulation\<close> that the tick loop reads and writes, as one
  record; the clock \<^verbatim>\<open>now\<close> is passed beside it. \<^verbatim>\<open>inflight_list\<close> is the local list
  \<^verbatim>\<open>inflight\<close>. \<^verbatim>\<open>rng_calls\<close> counts the calls of \<^verbatim>\<open>random.sample\<close> made so far:
  the sample drawn by a call is given by a function \<open>pick\<close> of that count, which stands for
  the random generator and is a parameter of the whole run. A sample is a list of positions
  in \<^verbatim>\<open>nodes\<close>; the node objects of the list are taken to be distinct objects.
\<close>

record sim_state =
  nodes :: "NodeState list"
  queue :: "Request list"
  inflight_list :: "Inflight list"
  idx :: nat
  controller :: controller
  accepted :: int
  rejected :: int
  rejected_reason :: "string \<Rightarrow> int"
  accepted_tokens :: int
  latencies_ms :: "real list"
  ttft_ms :: "real list"
  queue_wait_ms :: "real list"
  peak_concurrency :: int
  allocation_units :: int
  per_sec :: "sec_record list"
  sec_cursor :: int
  sec_accepted :: int
  sec_rejected :: int
  sec_burst :: int
  sec_ratelimit :: int
  sec_lat :: "real list"
  sec_ttft :: "real list"
  simulated_gc_counter :: int
  young_heap :: int
  rng_calls :: nat

definition init_state :: "NodeState list \<Rightarrow> controller \<Rightarrow> sim_state" where
  "init_state ns c =
     \<lparr>nodes = ns, queue = [], inflight_list = [], idx = 0, controller = c,
      accepted = 0, rejected = 0, rejected_reason = (\<lambda>k. 0), accepted_tokens = 0,
      latencies_ms = [], ttft_ms = [], queue_wait_ms = [], peak_concurrency = 0,
      allocation_units = 0, per_sec = [], sec_cursor = 0, sec_accepted = 0, sec_rejected = 0,
      sec_burst = 0, sec_ratelimit = 0, sec_lat = [], sec_ttft = [],
      simulated_gc_counter = 0, young_heap = 0, rng_calls = 0\<rparr>"

definition sum_inflight :: "NodeState list \<Rightarrow> int" where
  "sum_inflight ns = sum_list (map inflight ns)"

text \<open>Arrivals: \<^verbatim>\<open>while idx < len(reqs) and reqs[idx].arrival_ts <= now\<close> moves the longest
  run of arrived requests from position \<^verbatim>\<open>idx\<close> on to the back of the queue.\<close>

definition arrive :: "Request list \<Rightarrow> real \<Rightarrow> sim_state \<Rightarrow> sim_state" where
  "arrive reqs now s =
     (let new = takeWhile (\<lambda>r. arrival_ts r \<le> now) (drop (idx s) reqs)
      in s\<lparr>queue := queue s @ new, idx := idx s + length new\<rparr>)"

text \<open>Python list indexing: a negative index counts from the end, an index outside the list
  raises \<^verbatim>\<open>IndexError\<close>.\<close>

definition py_index :: "nat \<Rightarrow> int \<Rightarrow> nat option" where
  "py_index n i =
     (if 0 \<le> i \<and> i < int n then Some (nat i)
      else if - int n \<le> i \<and> i < 0 then Some (nat (int n + i))
      else None)"

fun finish_all :: "NodeState list \<Rightarrow> Inflight list \<Rightarrow> py_error + NodeState list" where
  "finish_all ns [] = Inr ns"
| "finish_all ns (c # cs) =
     (case py_index (length ns) (node_id_f c) of
        None \<Rightarrow> Inl IndexError
      | Some i \<Rightarrow> finish_all (ns[i := finish (ns ! i)]) cs)"

definition complete :: "real \<Rightarrow> sim_state \<Rightarrow> py_error + sim_state" where
  "complete now s =
     (let completed = filter (\<lambda>x. finish_ts x \<le> now) (inflight_list s) in
      if completed = [] then Inr s
      else case finish_all (nodes s) completed of
             Inl e \<Rightarrow> Inl e
           | Inr ns \<Rightarrow>
               (let lat = (\<lambda>c. (finish_ts c - arrival_ts (req c)) * 1000);
                    wait = (\<lambda>c. (start_ts c - arrival_ts (req c)) * 1000);
                    ttft = (\<lambda>c. (start_ts c - arrival_ts (req c) + ttft_delay_sec (req c)) * 1000);
                    done_ids = set (map (\<lambda>c. req_id (req c)) completed)
                in Inr (s\<lparr>nodes := ns,
                          latencies_ms := latencies_ms s @ map lat completed,
                          ttft_ms := ttft_ms s @ map ttft completed,
                          queue_wait_ms := queue_wait_ms s @ map wait completed,
                          sec_lat := sec_lat s @ map lat completed,
                          sec_ttft := sec_ttft s @ map ttft completed,
                          inflight_list := filter (\<lambda>x. req_id (req x) \<notin> done_ids)
                                                  (inflight_list s)\<rparr>)))"

text \<open>The timeout loop: the head of the queue is dropped and counted as long as it has
  waited more than 1.2 seconds.\<close>

definition timed_out :: "real \<Rightarrow> Request \<Rightarrow> bool" where
  "timed_out now r \<longleftrightarrow> now - arrival_ts r > 1.2"

function expire_queue :: "real \<Rightarrow> sim_state \<Rightarrow> sim_state" where
  "expire_queue now s =
     (if queue s \<noteq> [] \<and> timed_out now (hd (queue s))
      then expire_queue now
             (s\<lparr>queue := tl (queue s),
                rejected := rejected s + 1,
                sec_rejected := sec_rejected s + 1,
                rejected_reason := (rejected_reason s)
                  (''QUEUE_TIMEOUT'' := rejected_reason s ''QUEUE_TIMEOUT'' + 1)\<rparr>)
      else s)"
  by pat_completeness auto
termination
  by (relation "measure (\<lambda>(now, s). length (queue s))") auto

text \<open>The \<^verbatim>\<open>for node in sample\<close> loop. It returns the nodes (every node tried has been
  refilled by \<^verbatim>\<open>can_start\<close>), the position of the node that started the request, if any,
  and the last failure reason.\<close>

fun try_nodes ::
  "NodeState list \<Rightarrow> real \<Rightarrow> int \<Rightarrow> int \<Rightarrow> nat list \<Rightarrow> string \<Rightarrow> NodeState list \<times> nat option \<times> string" where
  "try_nodes ns now tokens cap [] fail_reason = (ns, None, fail_reason)"
| "try_nodes ns now tokens cap (i # rest) fail_reason =
     (case can_start (ns ! i) now tokens cap of
        ((ok, reason), n') \<Rightarrow>
          if ok then (ns[i := start n' now tokens], Some i, fail_reason)
          else try_nodes (ns[i := n']) now tokens cap rest reason)"

text \<open>One pass through the admission loop's body: the head of the queue is tried on a
  sample of nodes. \<^verbatim>\<open>sample.sort(key=...)\<close> is a stable sort by the in-flight count. The
  result says whether the request was started.\<close>

definition admit_one :: "(nat \<Rightarrow> nat list) \<Rightarrow> real \<Rightarrow> int \<Rightarrow> sim_state \<Rightarrow> bool \<times> sim_state" where
  "admit_one pick now cap s =
     (let r = hd (queue s);
          sample = sort_key (\<lambda>i. inflight (nodes s ! i)) (pick (rng_calls s))
      in case try_nodes (nodes s) now (total_tokens r) cap sample ''CONCURRENCY'' of
           (ns, Some i, fail_reason) \<Rightarrow>
             (let heap = young_heap s + stream_chunks r * 1024 + output_tokens r * 16
              in (True,
                  s\<lparr>nodes := ns,
                    inflight_list := inflight_list s @
                      [\<lparr>req = r, start_ts = now, finish_ts = now + service_time_sec r,
                        node_id_f = node_id (ns ! i)\<rparr>],
                    queue := tl (queue s),
                    accepted := accepted s + 1,
                    sec_accepted := sec_accepted s + 1,
                    accepted_tokens := accepted_tokens s + total_tokens r,
                    allocation_units := allocation_units s + (stream_chunks r * 3 + 8),
                    young_heap := (if heap > 3000000 then py_int (real_of_int heap * 0.35)
                                   else heap),
                    simulated_gc_counter := (if heap > 3000000 then simulated_gc_counter s + 1
                                             else simulated_gc_counter s),
                    rng_calls := rng_calls s + 1\<rparr>))
         | (ns, None, fail_reason) \<Rightarrow>
             (False,
              s\<lparr>nodes := ns,
                sec_ratelimit := (if fail_reason = ''RATE_RPM'' \<or> fail_reason = ''RATE_TPM''
                                  then sec_ratelimit s + 1 else sec_ratelimit s),
                sec_burst := (if fail_reason = ''BURST'' then sec_burst s + 1 else sec_burst s),
                rng_calls := rng_calls s + 1\<rparr>))"

lemma admit_one_queue: "admit_one pick now cap s = (True, s') \<Longrightarrow> queue s' = tl (queue s)"
  by (auto simp: admit_one_def Let_def split: prod.splits option.splits)

text \<open>The admission loop \<^verbatim>\<open>while queue and total_inflight < cap\<close>, with \<^verbatim>\<open>cap\<close> and
  the local counter \<^verbatim>\<open>total_inflight\<close> as arguments; a request that no sampled node
  starts ends the loop.\<close>

function admit_loop ::
  "(nat \<Rightarrow> nat list) \<Rightarrow> real \<Rightarrow> int \<Rightarrow> int \<Rightarrow> sim_state \<Rightarrow> sim_state" where
  "admit_loop pick now cap total_inflight s =
     (if queue s \<noteq> [] \<and> total_inflight < cap then
        (let (started, s') = admit_one pick now cap s
         in if started then admit_loop pick now cap (total_inflight + 1) s' else s')
      else s)"
  by pat_completeness auto
termination
proof (relation "measure (\<lambda>(pick, now, cap, total_inflight, s). length (queue s))", goal_cases)
  case 1
  show ?case by simp
next
  case (2 pick now cap total_inflight s x started s')
  then have "queue s' = tl (queue s)"
    using admit_one_queue [of pick now cap s s'] by simp
  with 2 show ?case by simp
qed

text \<open>One pass through the body of the metrics rollover.\<close>

definition close_window :: "sim_state \<Rightarrow> sim_state" where
  "close_window s =
     (let p95 = percentile (sec_lat s) 95;
          p95_ttft = percentile (sec_ttft s) 95;
          total_w = max 1 (sec_accepted s + sec_rejected s);
          m = \<lparr>rate_limit = real_of_int (sec_ratelimit s) / real_of_int total_w,
               burst = real_of_int (sec_burst s) / real_of_int total_w,
               p95_latency_ms = p95,
               p95_ttft_ms = p95_ttft,
               gc_freq = real_of_int (simulated_gc_counter s)\<rparr>;
          c = update (controller s) (sec_cursor s) m
      in s\<lparr>controller := c,
           per_sec := per_sec s @
             [\<lparr>second_s = sec_cursor s, accepted_s = sec_accepted s,
               rejected_s = sec_rejected s, burst_reject_s = sec_burst s,
               rate_reject_s = sec_ratelimit s, p95_latency_ms_s = p95,
               p95_ttft_ms_s = p95_ttft, controller_limit_s = current_limit c,
               sim_gc_freq_s = simulated_gc_counter s\<rparr>],
           sec_cursor := sec_cursor s + 1,
           sec_accepted := 0, sec_rejected := 0, sec_burst := 0, sec_ratelimit := 0,
           sec_lat := [], sec_ttft := [], simulated_gc_counter := 0\<rparr>)"

lemma close_window_cursor [simp]: "sec_cursor (close_window s) = sec_cursor s + 1"
  by (simp add: close_window_def Let_def)

text \<open>The metrics rollover: \<^verbatim>\<open>while now >= sec_cursor + 1.0\<close>.\<close>

function roll_windows :: "real \<Rightarrow> sim_state \<Rightarrow> sim_state" where
  "roll_windows now s =
     (if now \<ge> real_of_int (sec_cursor s) + 1 then roll_windows now (close_window s) else s)"
  by pat_completeness auto
termination
  by (relation "measure (\<lambda>(now, s). nat (\<lfloor>now - real_of_int (sec_cursor s)\<rfloor> + 1))")
     (auto simp: le_floor_iff)

text \<open>One pass through the body of \<^verbatim>\<open>while now <= end_time\<close>, up to but not including
  \<^verbatim>\<open>now += dt\<close>.\<close>

definition tick :: "(nat \<Rightarrow> nat list) \<Rightarrow> Request list \<Rightarrow> real \<Rightarrow> sim_state \<Rightarrow> py_error + sim_state" where
  "tick pick reqs now s =
     (case complete now (arrive reqs now s) of
        Inl e \<Rightarrow> Inl e
      | Inr s1 \<Rightarrow>
          (let s2 = expire_queue now s1;
               cap = current_limit (controller s2);
               s3 = admit_loop pick now cap (sum_inflight (nodes s2)) s2;
               s4 = s3\<lparr>peak_concurrency := max (peak_concurrency s3) (sum_inflight (nodes s3))\<rparr>
           in Inr (roll_windows now s4)))"

definition dt :: real where
  "dt = 0.02"

function run_loop ::
  "(nat \<Rightarrow> nat list) \<Rightarrow> Request list \<Rightarrow> real \<Rightarrow> real \<Rightarrow> sim_state \<Rightarrow> py_error + sim_state" where
  "run_loop pick reqs end_time now s =
     (if now \<le> end_time then
        (case tick pick reqs now s of
           Inl e \<Rightarrow> Inl e
         | Inr s' \<Rightarrow> run_loop pick reqs end_time (now + dt) s')
      else Inr s)"
  by pat_completeness auto
termination
proof (relation "measure (\<lambda>(pick, reqs, end_time, now, s). nat (\<lfloor>(end_time - now) / dt\<rfloor> + 1))",
    goal_cases)
  case 1
  show ?case by simp
next
  case (2 pick reqs end_time now s s')
  have "(end_time - (now + dt)) / dt = (end_time - now) / dt - 1"
    by (simp add: dt_def field_simps)
  moreover have "0 \<le> \<lfloor>(end_time - now) / dt\<rfloor>"
    using 2 by (simp add: dt_def)
  ultimately show ?case by simp
qed

text \<open>The state of the loop after at most \<open>n\<close> passes: the reachable states of the tick
  loop are the values of \<open>run_ticks\<close>.\<close>

fun run_ticks ::
  "(nat \<Rightarrow> nat list) \<Rightarrow> Request list \<Rightarrow> real \<Rightarrow> nat \<Rightarrow> real \<Rightarrow> sim_state \<Rightarrow> py_error + real \<times> sim_state" where
  "run_ticks pick reqs end_time 0 now s = Inr (now, s)"
| "run_ticks pick reqs end_time (Suc n) now s =
     (if now \<le> end_time then
        (case tick pick reqs now s of
           Inl e \<Rightarrow> Inl e
         | Inr s' \<Rightarrow> run_ticks pick reqs end_time n (now + dt) s')
      else Inr (now, s))"

text \<open>
  \<^verbatim>\<open>run_simulation(name, reqs, controller, node_factory)\<close> up to the end of its loop. The
  nodes are made first, then \<^verbatim>\<open>max(r.arrival_ts for r in reqs)\<close> raises
  \<^verbatim>\<open>ValueError\<close> on an empty sequence. The result is the final state of the loop, from
  which the source computes its summary dictionary; \<^verbatim>\<open>name\<close> is only copied into that
  dictionary.
\<close>

definition max_arrival :: "Request list \<Rightarrow> real" where
  "max_arrival reqs = fold max (map arrival_ts (tl reqs)) (arrival_ts (hd reqs))"

definition run_simulation ::
  "(nat \<Rightarrow> nat list) \<Rightarrow> Request list \<Rightarrow> controller \<Rightarrow> NodeState list option \<Rightarrow> py_error + sim_state" where
  "run_simulation pick reqs c node_factory =
     (let ns = (case node_factory of Some made \<Rightarrow> made | None \<Rightarrow> make_nodes) in
      if reqs = [] then Inl ValueError
      else let end_time = max_arrival reqs + 20
           in run_loop pick reqs end_time 0 (init_state ns c))"

text \<open>What \<^verbatim>\<open>random.sample(nodes, k=min(3, len(nodes)))\<close> can return: \<open>k\<close> distinct
  positions.\<close>

definition valid_pick :: "nat \<Rightarrow> (nat \<Rightarrow> nat list) \<Rightarrow> bool" where
  "valid_pick n pick \<longleftrightarrow>
     (\<forall>k. distinct (pick k) \<and> length (pick k) = min 3 n \<and> list_all (\<lambda>i. i < n) (pick k))"

text \<open>The equations of the four loops unfold themselves; they are used by hand.\<close>

declare expire_queue.simps [simp del]
declare admit_loop.simps [simp del]
declare roll_windows.simps [simp del]
declare run_loop.simps [simp del]

section \<open>Invariants of the tick loop\<close>





section \<open>A concrete run with an AIMD controller\<close>

text \<open>
  One node (\<^verbatim>\<open>NodeState(0, 600, 6000, 10, 10.0)\<close>), the controller
  \<^verbatim>\<open>AimdController(min_c=1, max_c=80, init_c=2)\<close>, and two requests that arrive at time
  0 and are served for 10 seconds, of 3000 and 3001 tokens. With one node every sample is
  that node. The first request starts in the first tick and leaves 3000 TPM tokens, so the
  second is refused there with \<^verbatim>\<open>RATE_TPM\<close>; the refill of the next tick lets it
  start. The three states below are the state after the first tick, the state after the
  second tick, which the following ticks up to time 1 leave as it is, and the state after
  the tick at time 1, which closes the first window.
\<close>

definition cx_node :: NodeState where
  "cx_node = NodeState_init 0 600 6000 10 10"


definition cx_req_a :: Request where
  "cx_req_a = \<lparr>req_id = 0, arrival_ts = 0, input_tokens = 1000, output_tokens = 2000,
     stream_chunks = 62, ttft_delay_sec = 1 / 10, service_time_sec = 10\<rparr>"

definition cx_req_b :: Request where
  "cx_req_b = \<lparr>req_id = 1, arrival_ts = 0, input_tokens = 1000, output_tokens = 2001,
     stream_chunks = 62, ttft_delay_sec = 1 / 10, service_time_sec = 10\<rparr>"

definition cx_pick :: "nat \<Rightarrow> nat list" where
  "cx_pick k = [0]"




section \<open>The queue of the run driver\<close>

text \<open>
  The requests enter the queue in the order of \<^verbatim>\<open>reqs\<close> and leave it at its head, either
  accepted or timed out: the queue is always the block of \<^verbatim>\<open>reqs\<close> from position
  \<open>accepted + rejected\<close> up to \<^verbatim>\<open>idx\<close>, and every rejection of the run is a
  \<^verbatim>\<open>QUEUE_TIMEOUT\<close>.
\<close>

definition queue_inv :: "Request list \<Rightarrow> sim_state \<Rightarrow> bool" where
  "queue_inv reqs s \<longleftrightarrow>
     queue s = drop (nat (accepted s + rejected s)) (take (idx s) reqs) \<and>
     0 \<le> accepted s \<and> 0 \<le> rejected s \<and>
     nat (accepted s + rejected s) \<le> idx s \<and> idx s \<le> length reqs \<and>
     rejected_reason s ''QUEUE_TIMEOUT'' = rejected s"

text \<open>
  The timeout loop of \<^verbatim>\<open>run_one\<close> in adaptive\_bucket\_ab.py, on the variables it
  touches: the queue, \<^verbatim>\<open>rejected\<close>, \<^verbatim>\<open>sec_rej\<close>, \<^verbatim>\<open>reason["QUEUE_TIMEOUT"]\<close>
  and the allocator, which is \<open>Some a\<close> when it is an \<^verbatim>\<open>AdaptiveBucketAllocator\<close>. The
  timeout is a parameter there.
\<close>

fun expire_queue_one ::
  "real \<Rightarrow> real \<Rightarrow> Request list \<Rightarrow> int \<times> int \<times> int \<times> AdaptiveBucketAllocator option \<Rightarrow>
     Request list \<times> int \<times> int \<times> int \<times> AdaptiveBucketAllocator option" where
  "expire_queue_one timeout_sec now [] st = ([], st)"
| "expire_queue_one timeout_sec now (r # q) (rejected_n, sec_rej, timeouts, allocator) =
     (if now - arrival_ts r > timeout_sec
      then expire_queue_one timeout_sec now q
             (rejected_n + 1, sec_rej + 1, timeouts + 1,
              map_option (\<lambda>a. record_reject a (total_tokens r)) allocator)
      else (r # q, rejected_n, sec_rej, timeouts, allocator))"

text \<open>
  A run in which a request times out: the node of the run above, a fixed controller with
  limit 0, so that nothing is ever admitted, and one request that arrives at time 0.01 and
  enters the queue in the tick at time 0.02. The first state is the one the loop stays in
  from that tick until time 1, the second the one it stays in from the window rollover at
  time 1 on, up to the tick at time 1.2, where the request has waited 1.19 seconds. In the
  tick at time 1.22 it has waited 1.21 seconds and is removed, which gives the third state.
\<close>

definition tx_req :: Request where
  "tx_req = \<lparr>req_id = 0, arrival_ts = 1 / 100, input_tokens = 100, output_tokens = 200,
     stream_chunks = 6, ttft_delay_sec = 1 / 10, service_time_sec = 1\<rparr>"

definition tx_state_1 :: sim_state where
  "tx_state_1 = (init_state [cx_node] (Fixed 0))\<lparr>queue := [tx_req], idx := 1\<rparr>"

definition tx_state_2 :: sim_state where
  "tx_state_2 = tx_state_1
     \<lparr>per_sec := [\<lparr>second_s = 0, accepted_s = 0, rejected_s = 0, burst_reject_s = 0,
                   rate_reject_s = 0, p95_latency_ms_s = 0, p95_ttft_ms_s = 0,
                   controller_limit_s = 0, sim_gc_freq_s = 0\<rparr>],
      sec_cursor := 1\<rparr>"

definition tx_state_3 :: sim_state where
  "tx_state_3 = tx_state_2
     \<lparr>queue := [], rejected := 1, sec_rejected := 1,
      rejected_reason := (rejected_reason tx_state_2)(''QUEUE_TIMEOUT'' := 1)\<rparr>"

section \<open>Running to the end\<close>

text \<open>
  The only exception of the tick loop is the \<^verbatim>\<open>IndexError\<close> of \<^verbatim>\<open>nodes[c.node_id]\<close>.
  It cannot occur when the \<^verbatim>\<open>node_id\<close> of every node is a position of the node list,
  as it is for the nodes of \<^verbatim>\<open>make_nodes\<close>, and the samples are samples of the node list.
\<close>

definition node_ids_ok :: "NodeState list \<Rightarrow> bool" where
  "node_ids_ok ns \<longleftrightarrow> list_all (\<lambda>n. py_index (length ns) (node_id n) \<noteq> None) ns"

definition index_inv :: "sim_state \<Rightarrow> bool" where
  "index_inv s \<longleftrightarrow>
     node_ids_ok (nodes s) \<and>
     list_all (\<lambda>f. py_index (length (nodes s)) (node_id_f f) \<noteq> None) (inflight_list s)"

text \<open>The time series has one record per closed second.\<close>

definition series_inv :: "sim_state \<Rightarrow> bool" where
  "series_inv s \<longleftrightarrow> int (length (per_sec s)) = sec_cursor s"

text \<open>An input that is not sorted by arrival, for the default nodes and a sample that is
  always the first three of them.\<close>

definition unsorted_reqs :: "Request list" where
  "unsorted_reqs =
     [\<lparr>req_id = 0, arrival_ts = 1, input_tokens = 100, output_tokens = 200,
       stream_chunks = 6, ttft_delay_sec = 1 / 10, service_time_sec = 1\<rparr>,
      \<lparr>req_id = 1, arrival_ts = 0, input_tokens = 100, output_tokens = 200,
       stream_chunks = 6, ttft_delay_sec = 1 / 10, service_time_sec = 1\<rparr>]"

definition first_three :: "nat \<Rightarrow> nat list" where
  "first_three k = [0, 1, 2]"

text \<open>
  A run with an input that is not sorted by arrival: the node of the runs above, a fixed
  controller with limit 2, and four requests. The first two arrive at time 0, start in the
  first tick and hold both seats until they finish at time 1.49. The third arrives at time
  0.99 and the fourth at time 0.01; the fourth stands behind the third in the input, so it
  enters the queue with it, in the tick at time 1, and waits behind it. The three states
  are the state after the first tick, in which the loop stays until time 1, the state after
  the tick at time 1, in which it stays until time 1.48, and the state after the tick at
  time 1.5, which completes the first two requests and starts the other two.
\<close>

definition ux_a :: Request where
  "ux_a = \<lparr>req_id = 0, arrival_ts = 0, input_tokens = 100, output_tokens = 200,
     stream_chunks = 6, ttft_delay_sec = 1 / 10, service_time_sec = 149 / 100\<rparr>"

definition ux_b :: Request where
  "ux_b = \<lparr>req_id = 1, arrival_ts = 0, input_tokens = 100, output_tokens = 200,
     stream_chunks = 6, ttft_delay_sec = 1 / 10, service_time_sec = 149 / 100\<rparr>"

definition ux_h :: Request where
  "ux_h = \<lparr>req_id = 2, arrival_ts = 99 / 100, input_tokens = 100, output_tokens = 200,
     stream_chunks = 6, ttft_delay_sec = 1 / 10, service_time_sec = 1\<rparr>"

definition ux_e :: Request where
  "ux_e = \<lparr>req_id = 3, arrival_ts = 1 / 100, input_tokens = 100, output_tokens = 200,
     stream_chunks = 6, ttft_delay_sec = 1 / 10, service_time_sec = 1\<rparr>"

definition ux_reqs :: "Request list" where
  "ux_reqs = [ux_a, ux_b, ux_h, ux_e]"

definition ux_state_1 :: sim_state where
  "ux_state_1 = (init_state [cx_node] (Fixed 2))
     \<lparr>nodes := [cx_node\<lparr>inflight := 2, rpm_tokens := 598, tpm_tokens := 5400,
                         starts_window := [0, 0]\<rparr>],
      inflight_list := [\<lparr>req = ux_a, start_ts = 0, finish_ts = 149 / 100, node_id_f = 0\<rparr>,
                        \<lparr>req = ux_b, start_ts = 0, finish_ts = 149 / 100, node_id_f = 0\<rparr>],
      idx := 2, accepted := 2, accepted_tokens := 600, peak_concurrency := 2,
      allocation_units := 52, sec_accepted := 2, young_heap := 18688, rng_calls := 2\<rparr>"

definition ux_state_2 :: sim_state where
  "ux_state_2 = ux_state_1
     \<lparr>queue := [ux_h, ux_e], idx := 4,
      per_sec := [\<lparr>second_s = 0, accepted_s = 2, rejected_s = 0, burst_reject_s = 0,
                   rate_reject_s = 0, p95_latency_ms_s = 0, p95_ttft_ms_s = 0,
                   controller_limit_s = 2, sim_gc_freq_s = 0\<rparr>],
      sec_cursor := 1, sec_accepted := 0\<rparr>"

definition ux_state_3 :: sim_state where
  "ux_state_3 = ux_state_2
     \<lparr>nodes := [cx_node\<lparr>inflight := 2, rpm_tokens := 598, tpm_tokens := 4950,
                         last_refill_ts := 3 / 2, starts_window := [3 / 2, 3 / 2]\<rparr>],
      queue := [],
      inflight_list := [\<lparr>req = ux_h, start_ts = 3 / 2, finish_ts = 5 / 2, node_id_f = 0\<rparr>,
                        \<lparr>req = ux_e, start_ts = 3 / 2, finish_ts = 5 / 2, node_id_f = 0\<rparr>],
      accepted := 4, accepted_tokens := 1200,
      latencies_ms := [1490, 1490], ttft_ms := [100, 100], queue_wait_ms := [0, 0],
      allocation_units := 104, sec_accepted := 2, sec_lat := [1490, 1490],
      sec_ttft := [100, 100], young_heap := 37376, rng_calls := 4\<rparr>"

section \<open>Doubles at concrete values\<close>

lemma bit_length_0 [simp]: "bit_length 0 = 0"
  by (simp add: bit_length.simps)

lemma bit_length_1 [simp]: "bit_length (Suc 0) = 1"
  by (simp add: bit_length.simps)

lemma bit_length_numeral [simp]: "bit_length (numeral k) = Suc (bit_length (numeral k div 2))"
  by (subst bit_length.simps) simp

lemmas round_double_eval = round_double_def ulp_def exponent_def round_half_even_def Let_def

text \<open>The literal \<^verbatim>\<open>0.7\<close> denotes the double \<open>0x1.6666666666666p-1\<close>.\<close>

lemma round_double_07: "round_double (7 / 10) = 3152519739159347 / 4503599627370496"
  by (simp add: round_double_eval)

lemma round_double_small:
  "round_double 4 = 4" "round_double 8 = 8" "round_double 32 = 32" "round_double 80 = 80"
  by (simp_all add: round_double_eval)

lemma fmul_8_07: "fmul 8 (7 / 10) = 3152519739159347 / 562949953421312"
  by (simp add: fmul_def round_double_eval)

lemma int_fmul_8_07: "py_int (fmul 8 (7 / 10)) = 5"
  by (simp add: fmul_8_07 py_int_def)

lemma int_fmul_90_07: "py_int (fmul 90 (7 / 10)) = 62"
  by (simp add: fmul_def round_double_eval py_int_def)


lemma fmul_8_15: "fmul 8 (3 / 2) = 12"
  by (simp add: fmul_def round_double_eval)

lemma fmul_27_15: "fmul 27 (3 / 2) = 81 / 2"
  by (simp add: fmul_def round_double_eval)

lemma fadd_405_1: "fadd (81 / 2) 1 = 83 / 2"
  by (simp add: fadd_def round_double_eval)

lemma fadd_795_1: "fadd (159 / 2) 1 = 161 / 2"
  by (simp add: fadd_def round_double_eval)

lemma fmul_8_075: "fmul 8 (3 / 4) = 6"
  by (simp add: fmul_def round_double_eval)

section \<open>Properties of the pool\<close>

lemma pool_inv_init: "0 \<le> c \<Longrightarrow> c \<le> m \<Longrightarrow> pool_inv (PoolFirstPolicy_init c m)"
  by (simp add: pool_inv_def PoolFirstPolicy_init_def)

lemma pool_inv_acquire: "pool_inv p \<Longrightarrow> pool_inv (snd (acquire_slot p))"
  by (cases "idle p") (auto simp: pool_inv_def acquire_slot_def)

lemma pool_inv_release: "pool_inv p \<Longrightarrow> pool_inv (release_slot p)"
  by (auto simp: pool_inv_def release_slot_def)

lemma pool_inv_calls: "pool_inv p \<Longrightarrow> pool_inv (pool_calls p cs)"
  by (induction p cs rule: pool_calls.induct) (simp_all add: pool_inv_acquire pool_inv_release)

lemma on_admit_eq: "on_admit = acquire_slot"
  by (rule ext) (simp add: on_admit_def acquire_slot_def)

lemma on_release_eq: "on_release = release_slot"
  by (rule ext) (simp add: on_release_def release_slot_def)

text \<open>
  C10. With a configuration \<open>0 \<le> core \<le> max_size\<close>, the invariant
  \<open>active + length idle = allocated\<close>, \<open>0 \<le> active\<close>, \<open>core \<le> allocated \<le> max_size\<close>
  holds for the freshly constructed pool, is preserved by every \<^verbatim>\<open>acquire_slot\<close> and
  \<^verbatim>\<open>release_slot\<close> call (and by \<^verbatim>\<open>on_admit\<close>/\<^verbatim>\<open>on_release\<close> of the second
  file), hence holds after every call sequence, whatever the order of acquires and releases;
  and \<^verbatim>\<open>acquire_slot\<close> returns True exactly when an idle slot exists or
  \<open>allocated < max_size\<close> at the time of the call.
\<close>

theorem pool_first_invariant:
  "(0 \<le> c \<and> c \<le> m \<longrightarrow>
      pool_inv (PoolFirstPolicy_init c m) \<and> pool_inv (pool_calls (PoolFirstPolicy_init c m) cs)) \<and>
   (pool_inv p \<longrightarrow>
      pool_inv (snd (acquire_slot p)) \<and> pool_inv (release_slot p) \<and>
      pool_inv (snd (on_admit p)) \<and> pool_inv (on_release p)) \<and>
   (fst (acquire_slot p) \<longleftrightarrow> idle p \<noteq> [] \<or> allocated p < max_size p) \<and>
   (fst (on_admit p) \<longleftrightarrow> idle p \<noteq> [] \<or> allocated p < max_size p)"
proof -
  have "fst (acquire_slot p) \<longleftrightarrow> idle p \<noteq> [] \<or> allocated p < max_size p"
    by (simp add: acquire_slot_def)
  then show ?thesis
    by (simp add: pool_inv_init pool_inv_calls pool_inv_acquire pool_inv_release
        on_admit_eq on_release_eq)
qed

theorem pool_first_invariant_witness:
  "pool_inv (PoolFirstPolicy_init 1 2) \<and>
   pool_inv (pool_calls (PoolFirstPolicy_init 1 2) [Acquire, Acquire, Acquire, Release]) \<and>
   active (pool_calls (PoolFirstPolicy_init 1 2) [Acquire, Acquire, Acquire, Release]) = 1 \<and>
   pool_inv (snd (acquire_slot (PoolFirstPolicy_init 1 2))) \<and>
   pool_inv (release_slot (PoolFirstPolicy_init 1 2)) \<and>
   fst (acquire_slot (PoolFirstPolicy_init 1 2)) \<and>
   \<not> fst (acquire_slot (pool_calls (PoolFirstPolicy_init 1 2) [Acquire, Acquire]))"
proof -
  have cfg: "(0::int) \<le> 1 \<and> (1::int) \<le> 2" by simp
  have run: "pool_calls (PoolFirstPolicy_init 1 2) [Acquire, Acquire] =
      \<lparr>core = 1, max_size = 2, allocated = 2, active = 2, idle = []\<rparr>"
    by (simp add: PoolFirstPolicy_init_def acquire_slot_def)
  have act: "active (pool_calls (PoolFirstPolicy_init 1 2) [Acquire, Acquire, Acquire, Release]) = 1"
    by (simp add: PoolFirstPolicy_init_def acquire_slot_def release_slot_def)
  from pool_first_invariant [of 1 2 "[Acquire, Acquire, Acquire, Release]" "PoolFirstPolicy_init 1 2"]
    pool_first_invariant [of 1 2 "[]" "pool_calls (PoolFirstPolicy_init 1 2) [Acquire, Acquire]"]
    cfg run act
  show ?thesis
    by (simp add: PoolFirstPolicy_init_def)
qed

section \<open>Properties of the controllers\<close>

lemma limit_min_update [simp]: "limit_min (update c second m) = limit_min c"
  by (cases c) (simp_all add: aimd_update_def tunable_update_def Let_def)

lemma limit_max_update [simp]: "limit_max (update c second m) = limit_max c"
  by (cases c) (simp_all add: aimd_update_def tunable_update_def Let_def)

lemma limit_min_updates [simp]: "limit_min (updates c second ms) = limit_min c"
  by (induction c second ms rule: updates.induct) simp_all

lemma limit_max_updates [simp]: "limit_max (updates c second ms) = limit_max c"
  by (induction c second ms rule: updates.induct) simp_all

lemma current_limit_ge_min: "limit_min c \<le> current_limit c"
  by (cases c) (simp_all add: aimd_current_limit_def tunable_current_limit_def)


lemma current_limit_range:
  "limit_min c \<le> current_limit c \<and>
   (limit_min c \<le> limit_max c \<longrightarrow> current_limit c \<le> limit_max c) \<and>
   (limit_max c < limit_min c \<longrightarrow> current_limit c = limit_min c)"
  by (cases c) (auto simp: aimd_current_limit_def tunable_current_limit_def)

text \<open>
  C5, as the code has it. For each of the three controller variants and for every finite
  sequence of window-metrics updates applied to it (in particular from its initial state),
  the value returned by \<^verbatim>\<open>current_limit()\<close> after the updates is at least min. When the
  controller is configured with \<open>min \<le> max\<close> (for the fixed controller both are its
  constant limit), the value is also at most max. The constructors accept \<open>min > max\<close>;
  then the value is always min, which is above max. The sequence is arbitrary, so this holds
  after each update of a run.
\<close>

theorem controller_bounds:
  "limit_min c \<le> current_limit (updates c second ms) \<and>
   (limit_min c \<le> limit_max c \<longrightarrow> current_limit (updates c second ms) \<le> limit_max c) \<and>
   (limit_max c < limit_min c \<longrightarrow> current_limit (updates c second ms) = limit_min c)"
  using current_limit_range [of "updates c second ms"] by simp

theorem controller_bounds_witness:
  "limit_min (Aimd (AimdController_init 6 95 10)) \<le> limit_max (Aimd (AimdController_init 6 95 10)) \<and>
   6 \<le> current_limit (updates (Aimd (AimdController_init 6 95 10)) 0
          [\<lparr>rate_limit = 0, burst = 0, p95_latency_ms = 0, p95_ttft_ms = 0, gc_freq = 0\<rparr>,
           \<lparr>rate_limit = 1, burst = 0, p95_latency_ms = 0, p95_ttft_ms = 0, gc_freq = 0\<rparr>]) \<and>
   current_limit (updates (Aimd (AimdController_init 6 95 10)) 0
          [\<lparr>rate_limit = 0, burst = 0, p95_latency_ms = 0, p95_ttft_ms = 0, gc_freq = 0\<rparr>,
           \<lparr>rate_limit = 1, burst = 0, p95_latency_ms = 0, p95_ttft_ms = 0, gc_freq = 0\<rparr>]) \<le> 95 \<and>
   limit_max (Tuned (TunableAimdController_init
       \<lparr>min_c_p = 10, max_c_p = 5, init_c_p = 7, ssthresh_p = 32, decrease_factor = 3 / 4,
        cooldown_windows = 3, rate_limit_threshold = 1 / 16, burst_threshold = 1 / 32,
        p95_threshold_ms = 2000, gc_threshold = 3 / 2, slow_start_factor = 3 / 2,
        ai_step = 5 / 4\<rparr>)) <
   limit_min (Tuned (TunableAimdController_init
       \<lparr>min_c_p = 10, max_c_p = 5, init_c_p = 7, ssthresh_p = 32, decrease_factor = 3 / 4,
        cooldown_windows = 3, rate_limit_threshold = 1 / 16, burst_threshold = 1 / 32,
        p95_threshold_ms = 2000, gc_threshold = 3 / 2, slow_start_factor = 3 / 2,
        ai_step = 5 / 4\<rparr>)) \<and>
   current_limit (updates (Tuned (TunableAimdController_init
       \<lparr>min_c_p = 10, max_c_p = 5, init_c_p = 7, ssthresh_p = 32, decrease_factor = 3 / 4,
        cooldown_windows = 3, rate_limit_threshold = 1 / 16, burst_threshold = 1 / 32,
        p95_threshold_ms = 2000, gc_threshold = 3 / 2, slow_start_factor = 3 / 2,
        ai_step = 5 / 4\<rparr>)) 0
          [\<lparr>rate_limit = 0, burst = 0, p95_latency_ms = 0, p95_ttft_ms = 0, gc_freq = 0\<rparr>]) = 10"
proof -
  have cfg: "limit_min (Aimd (AimdController_init 6 95 10)) \<le> limit_max (Aimd (AimdController_init 6 95 10))"
    by (simp add: AimdController_init_def)
  define t where "t = Tuned (TunableAimdController_init
       \<lparr>min_c_p = 10, max_c_p = 5, init_c_p = 7, ssthresh_p = 32, decrease_factor = 3 / 4,
        cooldown_windows = 3, rate_limit_threshold = 1 / 16, burst_threshold = 1 / 32,
        p95_threshold_ms = 2000, gc_threshold = 3 / 2, slow_start_factor = 3 / 2,
        ai_step = 5 / 4\<rparr>)"
  have bad: "limit_max t < limit_min t" and mn: "limit_min t = 10"
    by (simp_all add: t_def TunableAimdController_init_def)
  note a = controller_bounds [where c = "Aimd (AimdController_init 6 95 10)" and second = 0 and ms =
      "[\<lparr>rate_limit = 0, burst = 0, p95_latency_ms = 0, p95_ttft_ms = 0, gc_freq = 0\<rparr>,
        \<lparr>rate_limit = 1, burst = 0, p95_latency_ms = 0, p95_ttft_ms = 0, gc_freq = 0\<rparr>]"]
  note b = controller_bounds [where c = t and second = 0 and ms =
      "[\<lparr>rate_limit = 0, burst = 0, p95_latency_ms = 0, p95_ttft_ms = 0, gc_freq = 0\<rparr>]"]
  from a cfg have lo: "6 \<le> current_limit (updates (Aimd (AimdController_init 6 95 10)) 0
          [\<lparr>rate_limit = 0, burst = 0, p95_latency_ms = 0, p95_ttft_ms = 0, gc_freq = 0\<rparr>,
           \<lparr>rate_limit = 1, burst = 0, p95_latency_ms = 0, p95_ttft_ms = 0, gc_freq = 0\<rparr>])"
    and hi: "current_limit (updates (Aimd (AimdController_init 6 95 10)) 0
          [\<lparr>rate_limit = 0, burst = 0, p95_latency_ms = 0, p95_ttft_ms = 0, gc_freq = 0\<rparr>,
           \<lparr>rate_limit = 1, burst = 0, p95_latency_ms = 0, p95_ttft_ms = 0, gc_freq = 0\<rparr>]) \<le> 95"
    by (simp_all add: AimdController_init_def)
  from b bad mn have eq: "current_limit (updates t 0
          [\<lparr>rate_limit = 0, burst = 0, p95_latency_ms = 0, p95_ttft_ms = 0, gc_freq = 0\<rparr>]) = 10"
    by simp
  from cfg lo hi bad eq show ?thesis
    unfolding t_def by (intro conjI)
qed

text \<open>
  The claim C5 as written, for every configuration, fails when min exceeds max, which no
  constructor refuses: \<^verbatim>\<open>AimdController(min_c=10, max_c=5, init_c=7).current_limit()\<close>
  is \<open>max(10, min(5, 7)) = 10\<close>, above the max of 5, and it is still 10 after an update
  with a calm window.
\<close>

theorem controller_bounds_counterexample:
  "limit_min (Aimd (AimdController_init 10 5 7)) = 10 \<and>
   limit_max (Aimd (AimdController_init 10 5 7)) = 5 \<and>
   current_limit (Aimd (AimdController_init 10 5 7)) = 10 \<and>
   current_limit (updates (Aimd (AimdController_init 10 5 7)) 0
     [\<lparr>rate_limit = 0, burst = 0, p95_latency_ms = 0, p95_ttft_ms = 0, gc_freq = 0\<rparr>]) = 10 \<and>
   limit_max (Aimd (AimdController_init 10 5 7)) <
     current_limit (updates (Aimd (AimdController_init 10 5 7)) 0
       [\<lparr>rate_limit = 0, burst = 0, p95_latency_ms = 0, p95_ttft_ms = 0, gc_freq = 0\<rparr>])"
  by (simp add: AimdController_init_def aimd_current_limit_def aimd_update_def
      aimd_congested_def py_int_def)

text \<open>
  C4, as the code has it. With a positive cooldown, \<^verbatim>\<open>update\<close> decrements the cooldown and
  changes nothing else. Otherwise, when a congestion signal exceeds its threshold, the
  threshold becomes the float product of the window and the decrease factor, clamped to min,
  the window becomes that threshold, and the cooldown is set to the configured number of
  windows; the base \<^verbatim>\<open>AimdController\<close> (factor 0.7, cooldown 2) first truncates the
  product to an integer, the tunable controller does not. Otherwise the window is multiplied
  by the slow-start factor (1.5 in the base controller) while below the threshold and grows
  by the additive step (1 in the base controller) at or above it, clamped to max in both
  cases. Products and sums are those of doubles: from the window 90 the base controller
  computes \<open>90 * 0.7 = 62.99999999999999\<close> and sets the threshold to 62.
\<close>

theorem aimd_update_cases:
  "(cooldown c > 0 \<longrightarrow> aimd_update c second m = c\<lparr>cooldown := cooldown c - 1\<rparr>) \<and>
   (\<not> cooldown c > 0 \<and>
    (rate_limit m > 0.06 \<or> burst m > 0.03 \<or> p95_latency_ms m > 2200 \<or> gc_freq m > 4) \<longrightarrow>
      aimd_update c second m =
        c\<lparr>ssthresh := max (min_c c) (py_int (fmul (num_val (cwnd c)) 0.7)),
          cwnd := PyInt (max (min_c c) (py_int (fmul (num_val (cwnd c)) 0.7))),
          cooldown := 2\<rparr>) \<and>
   (\<not> cooldown c > 0 \<and>
    \<not> (rate_limit m > 0.06 \<or> burst m > 0.03 \<or> p95_latency_ms m > 2200 \<or> gc_freq m > 4) \<longrightarrow>
      aimd_update c second m =
        (if num_val (cwnd c) < real_of_int (ssthresh c)
         then c\<lparr>cwnd := (if fmul (num_val (cwnd c)) 1.5 < real_of_int (max_c c)
                            then PyFloat (fmul (num_val (cwnd c)) 1.5) else PyInt (max_c c))\<rparr>
         else c\<lparr>cwnd := (if num_val (add_one (cwnd c)) < real_of_int (max_c c)
                            then add_one (cwnd c) else PyInt (max_c c))\<rparr>)) \<and>
   num_val (add_one (PyInt k)) = real_of_int k + 1 \<and>
   num_val (add_one (PyFloat x)) = fadd x 1 \<and>
   (cooldown_t t > 0 \<longrightarrow> tunable_update t second m = t\<lparr>cooldown_t := cooldown_t t - 1\<rparr>) \<and>
   (\<not> cooldown_t t > 0 \<and>
    (rate_limit m > rate_limit_threshold (params t) \<or> burst m > burst_threshold (params t) \<or>
     p95_latency_ms m > p95_threshold_ms (params t) \<or> gc_freq m > gc_threshold (params t)) \<longrightarrow>
      tunable_update t second m =
        t\<lparr>ssthresh_t := max (real_of_int (min_c_p (params t)))
                           (fmul (cwnd_t t) (decrease_factor (params t))),
          cwnd_t := max (round_double (real_of_int (min_c_p (params t))))
                        (max (real_of_int (min_c_p (params t)))
                             (fmul (cwnd_t t) (decrease_factor (params t)))),
          cooldown_t := cooldown_windows (params t)\<rparr>) \<and>
   (\<not> cooldown_t t > 0 \<and>
    \<not> (rate_limit m > rate_limit_threshold (params t) \<or> burst m > burst_threshold (params t) \<or>
       p95_latency_ms m > p95_threshold_ms (params t) \<or> gc_freq m > gc_threshold (params t)) \<longrightarrow>
      tunable_update t second m =
        (if cwnd_t t < ssthresh_t t
         then t\<lparr>cwnd_t := min (round_double (real_of_int (max_c_p (params t))))
                                (fmul (cwnd_t t) (slow_start_factor (params t)))\<rparr>
         else t\<lparr>cwnd_t := min (round_double (real_of_int (max_c_p (params t))))
                                (fadd (cwnd_t t) (ai_step (params t)))\<rparr>))"
  by (simp add: aimd_update_def tunable_update_def aimd_congested_def tunable_congested_def
      py_min_def Let_def)

theorem aimd_update_cases_witness:
  "aimd_update (AimdController_init 4 80 8) 0
     \<lparr>rate_limit = 0, burst = 0, p95_latency_ms = 0, p95_ttft_ms = 0, gc_freq = 5\<rparr> =
     \<lparr>min_c = 4, max_c = 80, cwnd = PyInt 5, ssthresh = 5, cooldown = 2\<rparr> \<and>
   aimd_update \<lparr>min_c = 6, max_c = 95, cwnd = PyInt 90, ssthresh = 32, cooldown = 0\<rparr> 7
     \<lparr>rate_limit = 0, burst = 0, p95_latency_ms = 0, p95_ttft_ms = 0, gc_freq = 5\<rparr> =
     \<lparr>min_c = 6, max_c = 95, cwnd = PyInt 62, ssthresh = 62, cooldown = 2\<rparr> \<and>
   aimd_update \<lparr>min_c = 4, max_c = 80, cwnd = PyInt 5, ssthresh = 5, cooldown = 2\<rparr> 1
     \<lparr>rate_limit = 0, burst = 0, p95_latency_ms = 0, p95_ttft_ms = 0, gc_freq = 5\<rparr> =
     \<lparr>min_c = 4, max_c = 80, cwnd = PyInt 5, ssthresh = 5, cooldown = 1\<rparr> \<and>
   aimd_update (AimdController_init 4 80 8) 0
     \<lparr>rate_limit = 0, burst = 0, p95_latency_ms = 0, p95_ttft_ms = 0, gc_freq = 0\<rparr> =
     \<lparr>min_c = 4, max_c = 80, cwnd = PyFloat 12, ssthresh = 32, cooldown = 0\<rparr> \<and>
   aimd_update \<lparr>min_c = 4, max_c = 80, cwnd = PyFloat 27, ssthresh = 32, cooldown = 0\<rparr> 2
     \<lparr>rate_limit = 0, burst = 0, p95_latency_ms = 0, p95_ttft_ms = 0, gc_freq = 0\<rparr> =
     \<lparr>min_c = 4, max_c = 80, cwnd = PyFloat (81 / 2), ssthresh = 32, cooldown = 0\<rparr> \<and>
   aimd_update \<lparr>min_c = 4, max_c = 80, cwnd = PyFloat (81 / 2), ssthresh = 32, cooldown = 0\<rparr> 3
     \<lparr>rate_limit = 0, burst = 0, p95_latency_ms = 0, p95_ttft_ms = 0, gc_freq = 0\<rparr> =
     \<lparr>min_c = 4, max_c = 80, cwnd = PyFloat (83 / 2), ssthresh = 32, cooldown = 0\<rparr> \<and>
   aimd_update \<lparr>min_c = 4, max_c = 80, cwnd = PyFloat (159 / 2), ssthresh = 32, cooldown = 0\<rparr> 9
     \<lparr>rate_limit = 0, burst = 0, p95_latency_ms = 0, p95_ttft_ms = 0, gc_freq = 0\<rparr> =
     \<lparr>min_c = 4, max_c = 80, cwnd = PyInt 80, ssthresh = 32, cooldown = 0\<rparr> \<and>
   aimd_update \<lparr>min_c = 4, max_c = 80, cwnd = PyInt 62, ssthresh = 62, cooldown = 0\<rparr> 5
     \<lparr>rate_limit = 0, burst = 0, p95_latency_ms = 0, p95_ttft_ms = 0, gc_freq = 0\<rparr> =
     \<lparr>min_c = 4, max_c = 80, cwnd = PyInt 63, ssthresh = 62, cooldown = 0\<rparr> \<and>
   tunable_update
     (TunableAimdController_init
       \<lparr>min_c_p = 4, max_c_p = 80, init_c_p = 8, ssthresh_p = 32, decrease_factor = 3 / 4,
        cooldown_windows = 3, rate_limit_threshold = 1 / 16, burst_threshold = 1 / 32,
        p95_threshold_ms = 2000, gc_threshold = 3 / 2, slow_start_factor = 3 / 2,
        ai_step = 5 / 4\<rparr>) 0
     \<lparr>rate_limit = 0, burst = 0, p95_latency_ms = 0, p95_ttft_ms = 0, gc_freq = 5\<rparr> =
     \<lparr>params =
       \<lparr>min_c_p = 4, max_c_p = 80, init_c_p = 8, ssthresh_p = 32, decrease_factor = 3 / 4,
        cooldown_windows = 3, rate_limit_threshold = 1 / 16, burst_threshold = 1 / 32,
        p95_threshold_ms = 2000, gc_threshold = 3 / 2, slow_start_factor = 3 / 2,
        ai_step = 5 / 4\<rparr>,
      cwnd_t = 6, ssthresh_t = 6, cooldown_t = 3\<rparr>"
proof -
  note base = aimd_update_cases [where second = 0 and c = "AimdController_init 4 80 8"
      and m = "\<lparr>rate_limit = 0, burst = 0, p95_latency_ms = 0, p95_ttft_ms = 0, gc_freq = 5\<rparr>"
      and t = "TunableAimdController_init
       \<lparr>min_c_p = 4, max_c_p = 80, init_c_p = 8, ssthresh_p = 32, decrease_factor = 3 / 4,
        cooldown_windows = 3, rate_limit_threshold = 1 / 16, burst_threshold = 1 / 32,
        p95_threshold_ms = 2000, gc_threshold = 3 / 2, slow_start_factor = 3 / 2,
        ai_step = 5 / 4\<rparr>"]
  note high = aimd_update_cases [where second = 7
      and c = "\<lparr>min_c = 6, max_c = 95, cwnd = PyInt 90, ssthresh = 32, cooldown = 0\<rparr>"
      and m = "\<lparr>rate_limit = 0, burst = 0, p95_latency_ms = 0, p95_ttft_ms = 0, gc_freq = 5\<rparr>"]
  note cool = aimd_update_cases [where second = 1
      and c = "\<lparr>min_c = 4, max_c = 80, cwnd = PyInt 5, ssthresh = 5, cooldown = 2\<rparr>"
      and m = "\<lparr>rate_limit = 0, burst = 0, p95_latency_ms = 0, p95_ttft_ms = 0, gc_freq = 5\<rparr>"]
  note calm = aimd_update_cases [where second = 0 and c = "AimdController_init 4 80 8"
      and m = "\<lparr>rate_limit = 0, burst = 0, p95_latency_ms = 0, p95_ttft_ms = 0, gc_freq = 0\<rparr>"]
  note slow = aimd_update_cases [where second = 2
      and c = "\<lparr>min_c = 4, max_c = 80, cwnd = PyFloat 27, ssthresh = 32, cooldown = 0\<rparr>"
      and m = "\<lparr>rate_limit = 0, burst = 0, p95_latency_ms = 0, p95_ttft_ms = 0, gc_freq = 0\<rparr>"]
  note step = aimd_update_cases [where second = 3
      and c = "\<lparr>min_c = 4, max_c = 80, cwnd = PyFloat (81 / 2), ssthresh = 32, cooldown = 0\<rparr>"
      and m = "\<lparr>rate_limit = 0, burst = 0, p95_latency_ms = 0, p95_ttft_ms = 0, gc_freq = 0\<rparr>"]
  note clamp = aimd_update_cases [where second = 9
      and c = "\<lparr>min_c = 4, max_c = 80, cwnd = PyFloat (159 / 2), ssthresh = 32, cooldown = 0\<rparr>"
      and m = "\<lparr>rate_limit = 0, burst = 0, p95_latency_ms = 0, p95_ttft_ms = 0, gc_freq = 0\<rparr>"]
  note whole = aimd_update_cases [where second = 5
      and c = "\<lparr>min_c = 4, max_c = 80, cwnd = PyInt 62, ssthresh = 62, cooldown = 0\<rparr>"
      and m = "\<lparr>rate_limit = 0, burst = 0, p95_latency_ms = 0, p95_ttft_ms = 0, gc_freq = 0\<rparr>"]
  from base have 1: "aimd_update (AimdController_init 4 80 8) 0
     \<lparr>rate_limit = 0, burst = 0, p95_latency_ms = 0, p95_ttft_ms = 0, gc_freq = 5\<rparr> =
     \<lparr>min_c = 4, max_c = 80, cwnd = PyInt 5, ssthresh = 5, cooldown = 2\<rparr>"
    by (simp add: AimdController_init_def int_fmul_8_07)
  from high have 2: "aimd_update \<lparr>min_c = 6, max_c = 95, cwnd = PyInt 90, ssthresh = 32, cooldown = 0\<rparr> 7
     \<lparr>rate_limit = 0, burst = 0, p95_latency_ms = 0, p95_ttft_ms = 0, gc_freq = 5\<rparr> =
     \<lparr>min_c = 6, max_c = 95, cwnd = PyInt 62, ssthresh = 62, cooldown = 2\<rparr>"
    by (simp add: int_fmul_90_07)
  from cool have 3: "aimd_update \<lparr>min_c = 4, max_c = 80, cwnd = PyInt 5, ssthresh = 5, cooldown = 2\<rparr> 1
     \<lparr>rate_limit = 0, burst = 0, p95_latency_ms = 0, p95_ttft_ms = 0, gc_freq = 5\<rparr> =
     \<lparr>min_c = 4, max_c = 80, cwnd = PyInt 5, ssthresh = 5, cooldown = 1\<rparr>"
    by simp
  from calm have 4: "aimd_update (AimdController_init 4 80 8) 0
     \<lparr>rate_limit = 0, burst = 0, p95_latency_ms = 0, p95_ttft_ms = 0, gc_freq = 0\<rparr> =
     \<lparr>min_c = 4, max_c = 80, cwnd = PyFloat 12, ssthresh = 32, cooldown = 0\<rparr>"
    by (simp add: AimdController_init_def fmul_8_15)
  from slow have 5: "aimd_update \<lparr>min_c = 4, max_c = 80, cwnd = PyFloat 27, ssthresh = 32, cooldown = 0\<rparr> 2
     \<lparr>rate_limit = 0, burst = 0, p95_latency_ms = 0, p95_ttft_ms = 0, gc_freq = 0\<rparr> =
     \<lparr>min_c = 4, max_c = 80, cwnd = PyFloat (81 / 2), ssthresh = 32, cooldown = 0\<rparr>"
    by (simp add: fmul_27_15)
  from step have 6: "aimd_update \<lparr>min_c = 4, max_c = 80, cwnd = PyFloat (81 / 2), ssthresh = 32, cooldown = 0\<rparr> 3
     \<lparr>rate_limit = 0, burst = 0, p95_latency_ms = 0, p95_ttft_ms = 0, gc_freq = 0\<rparr> =
     \<lparr>min_c = 4, max_c = 80, cwnd = PyFloat (83 / 2), ssthresh = 32, cooldown = 0\<rparr>"
    by (simp add: fadd_405_1)
  from clamp have 7: "aimd_update \<lparr>min_c = 4, max_c = 80, cwnd = PyFloat (159 / 2), ssthresh = 32, cooldown = 0\<rparr> 9
     \<lparr>rate_limit = 0, burst = 0, p95_latency_ms = 0, p95_ttft_ms = 0, gc_freq = 0\<rparr> =
     \<lparr>min_c = 4, max_c = 80, cwnd = PyInt 80, ssthresh = 32, cooldown = 0\<rparr>"
    by (simp add: fadd_795_1)
  from whole have 8: "aimd_update \<lparr>min_c = 4, max_c = 80, cwnd = PyInt 62, ssthresh = 62, cooldown = 0\<rparr> 5
     \<lparr>rate_limit = 0, burst = 0, p95_latency_ms = 0, p95_ttft_ms = 0, gc_freq = 0\<rparr> =
     \<lparr>min_c = 4, max_c = 80, cwnd = PyInt 63, ssthresh = 62, cooldown = 0\<rparr>"
    by simp
  from base have 9: "tunable_update
     (TunableAimdController_init
       \<lparr>min_c_p = 4, max_c_p = 80, init_c_p = 8, ssthresh_p = 32, decrease_factor = 3 / 4,
        cooldown_windows = 3, rate_limit_threshold = 1 / 16, burst_threshold = 1 / 32,
        p95_threshold_ms = 2000, gc_threshold = 3 / 2, slow_start_factor = 3 / 2,
        ai_step = 5 / 4\<rparr>) 0
     \<lparr>rate_limit = 0, burst = 0, p95_latency_ms = 0, p95_ttft_ms = 0, gc_freq = 5\<rparr> =
     \<lparr>params =
       \<lparr>min_c_p = 4, max_c_p = 80, init_c_p = 8, ssthresh_p = 32, decrease_factor = 3 / 4,
        cooldown_windows = 3, rate_limit_threshold = 1 / 16, burst_threshold = 1 / 32,
        p95_threshold_ms = 2000, gc_threshold = 3 / 2, slow_start_factor = 3 / 2,
        ai_step = 5 / 4\<rparr>,
      cwnd_t = 6, ssthresh_t = 6, cooldown_t = 3\<rparr>"
    by (simp add: TunableAimdController_init_def fmul_8_075 round_double_small)
  from 1 2 3 4 5 6 7 8 9 show ?thesis
    by (intro conjI)
qed

text \<open>
  The claim C4 as written, without the truncation, fails on the base controller: from the
  initial state \<^verbatim>\<open>AimdController(min_c=4, max_c=80, init_c=8)\<close> a congested window sets
  the threshold to \<open>int(8 * 0.7) = 5\<close>, which is neither the exact product 5.6 nor the
  float product \<open>8 * 0.7\<close>.
\<close>

theorem aimd_update_threshold_counterexample:
  "ssthresh (aimd_update (AimdController_init 4 80 8) 0
      \<lparr>rate_limit = 0, burst = 0, p95_latency_ms = 0, p95_ttft_ms = 0, gc_freq = 5\<rparr>) = 5 \<and>
   max (real_of_int (min_c (AimdController_init 4 80 8)))
       (num_val (cwnd (AimdController_init 4 80 8)) * 0.7) = 5.6 \<and>
   max (real_of_int (min_c (AimdController_init 4 80 8)))
       (fmul (num_val (cwnd (AimdController_init 4 80 8))) 0.7) =
     3152519739159347 / 562949953421312"
  by (simp add: aimd_update_def aimd_congested_def AimdController_init_def Let_def
      fmul_8_07 py_int_def)

section \<open>Properties of a node\<close>

lemma within_capacity_refill: "within_capacity n \<Longrightarrow> within_capacity (refill n now)"
  by (simp add: within_capacity_def refill_def Let_def)

lemma within_capacity_call:
  "within_capacity n \<Longrightarrow> start_cost_ok c \<Longrightarrow> within_capacity (apply_call n c)"
proof (cases c)
  case (Refill now)
  assume "within_capacity n"
  with Refill show ?thesis by (simp add: within_capacity_refill)
next
  case (CanStart now k a)
  assume "within_capacity n"
  then have "within_capacity (refill n now)" by (rule within_capacity_refill)
  with CanStart show ?thesis by (simp add: can_start_def Let_def)
next
  case (Start now k)
  assume "within_capacity n" "start_cost_ok c"
  with Start show ?thesis by (simp add: within_capacity_def start_def)
next
  case Finish
  assume "within_capacity n"
  with Finish show ?thesis by (simp add: within_capacity_def finish_def)
qed

lemma within_capacity_calls:
  "within_capacity n \<Longrightarrow> list_all start_cost_ok cs \<Longrightarrow> within_capacity (foldl apply_call n cs)"
  by (induction cs arbitrary: n) (simp_all add: within_capacity_call)

text \<open>
  C6. Start from a freshly constructed node and apply any sequence of \<^verbatim>\<open>refill\<close>,
  \<^verbatim>\<open>can_start\<close>, \<^verbatim>\<open>start\<close> and \<^verbatim>\<open>finish\<close> calls in which every started request has
  a non-negative token count (timestamps may be in any order, non-decreasing ones included).
  Then \<open>rpm_tokens \<le> rpm_limit\<close> and \<open>tpm_tokens \<le> tpm_limit\<close> hold in the state the
  sequence reaches, and still hold after one more \<^verbatim>\<open>refill\<close>: the bound holds before and
  after every refill call.
\<close>

theorem token_bucket_capacity:
  assumes "list_all start_cost_ok cs"
  shows "within_capacity (foldl apply_call (NodeState_init i rpm tpm phys brst) cs) \<and>
         within_capacity (refill (foldl apply_call (NodeState_init i rpm tpm phys brst) cs) now)"
proof -
  have "within_capacity (NodeState_init i rpm tpm phys brst)"
    by (simp add: within_capacity_def NodeState_init_def)
  then have "within_capacity (foldl apply_call (NodeState_init i rpm tpm phys brst) cs)"
    using assms by (rule within_capacity_calls)
  then show ?thesis
    by (simp add: within_capacity_refill)
qed

theorem token_bucket_capacity_witness:
  "list_all start_cost_ok [CanStart 0 300 8, Start 0 300, Refill 30, Finish] \<and>
   rpm_tokens (refill (foldl apply_call (NodeState_init 0 1150 520000 14 15)
      [CanStart 0 300 8, Start 0 300, Refill 30, Finish]) 31) = 1150 \<and>
   within_capacity (foldl apply_call (NodeState_init 0 1150 520000 14 15)
      [CanStart 0 300 8, Start 0 300, Refill 30, Finish]) \<and>
   within_capacity (refill (foldl apply_call (NodeState_init 0 1150 520000 14 15)
      [CanStart 0 300 8, Start 0 300, Refill 30, Finish]) 31)"
proof -
  have ok: "list_all start_cost_ok [CanStart 0 300 8, Start 0 300, Refill 30, Finish]"
    by simp
  have "rpm_tokens (refill (foldl apply_call (NodeState_init 0 1150 520000 14 15)
      [CanStart 0 300 8, Start 0 300, Refill 30, Finish]) 31) = 1150"
    by (simp add: NodeState_init_def can_start_def refill_def start_def finish_def Let_def)
  with ok token_bucket_capacity [OF ok, of 0 1150 520000 14 15 31] show ?thesis
    by simp
qed

text \<open>
  C2. \<^verbatim>\<open>can_start\<close> refills first: the node it leaves behind is exactly
  \<open>refill n now\<close>, whatever the outcome, so on a failure \<^verbatim>\<open>rpm_tokens\<close>,
  \<^verbatim>\<open>tpm_tokens\<close>, \<^verbatim>\<open>inflight\<close> and the burst window are as the refill left them. The
  checks run on the refilled node in the order concurrency ceiling, burst window, RPM tokens,
  TPM tokens; the reason returned is that of the first check that fails, and the call
  succeeds with an empty reason when none fails.
\<close>

theorem can_start_order:
  "snd (can_start n now k a) = refill n now \<and>
   (inflight (refill n now) \<ge> min (max_physical_concurrency (refill n now)) a \<longrightarrow>
      fst (can_start n now k a) = (False, ''CONCURRENCY'')) \<and>
   (\<not> inflight (refill n now) \<ge> min (max_physical_concurrency (refill n now)) a \<and>
    real (length (starts_window (refill n now))) \<ge> burst_rps_limit (refill n now) \<longrightarrow>
      fst (can_start n now k a) = (False, ''BURST'')) \<and>
   (\<not> inflight (refill n now) \<ge> min (max_physical_concurrency (refill n now)) a \<and>
    \<not> real (length (starts_window (refill n now))) \<ge> burst_rps_limit (refill n now) \<and>
    rpm_tokens (refill n now) < 1 \<longrightarrow>
      fst (can_start n now k a) = (False, ''RATE_RPM'')) \<and>
   (\<not> inflight (refill n now) \<ge> min (max_physical_concurrency (refill n now)) a \<and>
    \<not> real (length (starts_window (refill n now))) \<ge> burst_rps_limit (refill n now) \<and>
    \<not> rpm_tokens (refill n now) < 1 \<and>
    tpm_tokens (refill n now) < real_of_int k \<longrightarrow>
      fst (can_start n now k a) = (False, ''RATE_TPM'')) \<and>
   (\<not> inflight (refill n now) \<ge> min (max_physical_concurrency (refill n now)) a \<and>
    \<not> real (length (starts_window (refill n now))) \<ge> burst_rps_limit (refill n now) \<and>
    \<not> rpm_tokens (refill n now) < 1 \<and>
    \<not> tpm_tokens (refill n now) < real_of_int k \<longrightarrow>
      fst (can_start n now k a) = (True, ''''))"
  by (simp add: can_start_def Let_def)

theorem can_start_order_witness:
  "fst (can_start (NodeState_init 0 60 1000 2 1) 0 500 8) = (True, '''') \<and>
   fst (can_start (NodeState_init 0 60 1000 2 1) 0 2000 8) = (False, ''RATE_TPM'') \<and>
   fst (can_start (NodeState_init 0 60 1000 2 1) 0 500 0) = (False, ''CONCURRENCY'') \<and>
   fst (can_start (start (NodeState_init 0 60 1000 2 1) 0 500) (1/2) 10 8) = (False, ''BURST'') \<and>
   rpm_tokens (snd (can_start (start (NodeState_init 0 60 1000 2 1) 0 500) (1/2) 10 8)) = 119/2 \<and>
   tpm_tokens (snd (can_start (start (NodeState_init 0 60 1000 2 1) 0 500) (1/2) 10 8)) = 1525/3 \<and>
   inflight (snd (can_start (start (NodeState_init 0 60 1000 2 1) 0 500) (1/2) 10 8)) = 1 \<and>
   starts_window (snd (can_start (start (NodeState_init 0 60 1000 2 1) 0 500) (1/2) 10 8)) = [0]"
proof -
  have r0: "refill (NodeState_init 0 60 1000 2 1) 0 = NodeState_init 0 60 1000 2 1"
    by (simp add: refill_def NodeState_init_def)
  have r1: "refill (start (NodeState_init 0 60 1000 2 1) 0 500) (1/2) =
      \<lparr>node_id = 0, rpm_limit = 60, tpm_limit = 1000, max_physical_concurrency = 2,
       burst_rps_limit = 1, inflight = 1, rpm_tokens = 119/2, tpm_tokens = 1525/3,
       last_refill_ts = 1/2, starts_window = [0]\<rparr>"
    by (simp add: refill_def start_def NodeState_init_def Let_def)
  from can_start_order [of "NodeState_init 0 60 1000 2 1" 0 500 8]
    can_start_order [of "NodeState_init 0 60 1000 2 1" 0 2000 8]
    can_start_order [of "NodeState_init 0 60 1000 2 1" 0 500 0]
    can_start_order [of "start (NodeState_init 0 60 1000 2 1) 0 500" "1/2" 10 8]
  show ?thesis
    unfolding r0 r1 by (simp add: NodeState_init_def)
qed

section \<open>Properties of the bucket allocator\<close>

lemma list4: "length xs = 4 \<Longrightarrow> \<exists>a b c d. xs = [a, b, c, d]"
  by (auto simp: numeral_eq_Suc length_Suc_conv)

lemma list3: "length xs = 3 \<Longrightarrow> \<exists>a b c. xs = [a, b, c]"
  by (auto simp: numeral_eq_Suc length_Suc_conv)

lemma share_scores_length [simp]: "length (share_scores wa wk wt wr) = 4"
  by (simp add: share_scores_def Let_def)

lemma share_scores_pos: "list_all (\<lambda>x. 0 < x) (share_scores wa wk wt wr)"
proof -
  have h: "0 < max (0.10::real) y" for y
    by (simp add: less_max_iff_disj)
  show ?thesis
    unfolding share_scores_def Let_def list_all_iff set_map
  proof (rule ballI, erule imageE)
    fix x i
    assume "x = max 0.10 (min 0.50
                 (0.35 * (real_of_int (wa ! i) / (real_of_int (sum_list wa) + 1 / 10 ^ 9)) +
                  0.35 * (real_of_int (wk ! i) / (real_of_int (sum_list wk) + 1 / 10 ^ 9)) +
                  0.20 * (real_of_int (wt ! i) / (real_of_int (sum_list wt) + 1 / 10 ^ 9)) -
                  0.25 * (real_of_int (wr ! i) / real_of_int (max 1 (wa ! i)))))"
    then show "0 < x" by (simp only: h)
  qed
qed

lemma share_step_pos: "0 < old \<Longrightarrow> 0 < tgt \<Longrightarrow> 0 < share_step old tgt"
  by (simp add: share_step_def max_def min_def Let_def)

lemma rebalance_shares_4:
  "rebalance_shares [p, q, r, t] [a, b, c, d] =
     (if p + (q + (r + t)) = 0 then Inl ZeroDivisionError
      else if share_step a (p / (p + (q + (r + t)))) + (share_step b (q / (p + (q + (r + t)))) +
              (share_step c (r / (p + (q + (r + t)))) + share_step d (t / (p + (q + (r + t)))))) = 0
        then Inl ZeroDivisionError
      else Inr (map (\<lambda>x. x / (share_step a (p / (p + (q + (r + t)))) + (share_step b (q / (p + (q + (r + t)))) +
              (share_step c (r / (p + (q + (r + t)))) + share_step d (t / (p + (q + (r + t))))))))
            [share_step a (p / (p + (q + (r + t)))), share_step b (q / (p + (q + (r + t)))),
             share_step c (r / (p + (q + (r + t)))), share_step d (t / (p + (q + (r + t))))]))"
  unfolding rebalance_shares_def Let_def
  by (simp only: sum_list.Cons sum_list.Nil list.map zip_Cons_Cons zip_Nil prod.case add_0_right)

lemma rebalance_shares_ok:
  assumes n: "length new_shares = 4" "list_all (\<lambda>x. 0 < x) new_shares"
    and o: "shares_ok old_shares"
  shows "\<exists>sh. rebalance_shares new_shares old_shares = Inr sh \<and> shares_ok sh"
proof -
  from n(1) obtain p q r t where new: "new_shares = [p, q, r, t]"
    using list4 by blast
  from o obtain a b c d where old: "old_shares = [a, b, c, d]"
    using list4 unfolding shares_ok_def by blast
  from n(2) new have pos: "0 < p" "0 < q" "0 < r" "0 < t" by simp_all
  from o old have opos: "0 < a" "0 < b" "0 < c" "0 < d"
    by (simp_all add: shares_ok_def)
  define s where "s = p + (q + (r + t))"
  have s: "0 < s" using pos by (simp add: s_def)
  define ua where "ua = share_step a (p / s)"
  define ub where "ub = share_step b (q / s)"
  define uc where "uc = share_step c (r / s)"
  define ud where "ud = share_step d (t / s)"
  have u: "0 < ua" "0 < ub" "0 < uc" "0 < ud"
    unfolding ua_def ub_def uc_def ud_def using pos opos s
    by (simp_all add: share_step_pos)
  define s2 where "s2 = ua + (ub + (uc + ud))"
  have s2: "0 < s2" using u by (simp add: s2_def)
  have "rebalance_shares new_shares old_shares =
      (if s = 0 then Inl ZeroDivisionError
       else if s2 = 0 then Inl ZeroDivisionError
       else Inr (map (\<lambda>x. x / s2) [ua, ub, uc, ud]))"
    unfolding new old rebalance_shares_4 s2_def ua_def ub_def uc_def ud_def s_def ..
  with s s2 have eq: "rebalance_shares new_shares old_shares = Inr [ua / s2, ub / s2, uc / s2, ud / s2]"
    by simp
  have "(ua + (ub + (uc + ud))) / s2 = 1"
    using s2 unfolding s2_def by simp
  then have sum1: "ua / s2 + (ub / s2 + (uc / s2 + ud / s2)) = 1"
    by (simp only: add_divide_distrib)
  have each: "0 < ua / s2" "0 < ub / s2" "0 < uc / s2" "0 < ud / s2"
    using u s2 by simp_all
  then have lt: "ua / s2 < 1" "ub / s2 < 1" "uc / s2 < 1" "ud / s2 < 1"
    using sum1 by linarith+
  show ?thesis
    unfolding eq using sum1 each lt by (simp add: shares_ok_def)
qed


lemma alloc_inv_init: "alloc_inv (AdaptiveBucketAllocator_init rpm tpm)"
  by (simp add: alloc_inv_def AdaptiveBucketAllocator_init_def shares_ok_def strictly_increasing_def)

lemma update_boundaries_inv: "alloc_inv a \<Longrightarrow> alloc_inv (update_boundaries a)"
  by (simp add: alloc_inv_def update_boundaries_def Let_def strictly_increasing_def)

lemma update_shares_inv:
  assumes "alloc_inv a"
  shows "\<exists>a'. update_shares a = Inr a' \<and> alloc_inv a'"
proof -
  from assms have "shares_ok (shares a)" by (simp add: alloc_inv_def)
  with rebalance_shares_ok [OF share_scores_length share_scores_pos]
  obtain sh where "rebalance_shares
      (share_scores (win_arrival a) (win_accepted a) (win_tokens a) (win_reject a)) (shares a) = Inr sh"
    and "shares_ok sh" by blast
  with assms show ?thesis
    by (simp add: update_shares_def alloc_inv_def)
qed

lemma on_window_end_inv:
  assumes "alloc_inv a"
  shows "\<exists>a'. on_window_end a = Inr a' \<and> alloc_inv a'"
proof -
  from assms have "alloc_inv (update_boundaries a)" by (rule update_boundaries_inv)
  then obtain a1 where "update_shares (update_boundaries a) = Inr a1" "alloc_inv a1"
    using update_shares_inv by blast
  then show ?thesis
    by (simp add: on_window_end_def alloc_inv_def)
qed

lemma allocator_call_inv:
  assumes "alloc_inv a"
  shows "\<exists>a'. apply_allocator_call a c = Inr a' \<and> alloc_inv a'"
proof (cases c)
  case OnWindowEnd
  with assms show ?thesis by (simp add: on_window_end_inv)
next
  case (CanAdmit now t)
  with assms show ?thesis
    by (simp add: alloc_inv_def can_admit_def refill_b_def Let_def)
qed (use assms in \<open>simp_all add: alloc_inv_def record_arrival_def record_accept_def
      record_reject_def consume_def Let_def\<close>)

lemma allocator_calls_inv:
  "alloc_inv a \<Longrightarrow> \<exists>a'. allocator_calls a cs = Inr a' \<and> alloc_inv a'"
proof (induction cs arbitrary: a)
  case Nil
  then show ?case by simp
next
  case (Cons c cs)
  from allocator_call_inv [OF Cons.prems] obtain a1
    where "apply_allocator_call a c = Inr a1" "alloc_inv a1" by blast
  with Cons.IH [of a1] show ?case by simp
qed

text \<open>
  C3, as the code has it. From the constructed adaptive allocator, after any sequence of the
  calls the driver makes (arrivals, accepts, rejects, admissions, consumption and window
  ends, with any token counts), no call has raised, the four shares sum to 1, every share
  lies strictly between 0 and 1, and the three boundaries are strictly increasing. The same
  holds for one \<^verbatim>\<open>on_window_end\<close> call on any allocator that satisfies these conditions,
  whatever its window counters and token history. The band \<open>[0.10, 0.50]\<close> is applied to the
  raw scores before they are normalised; the shares themselves are not kept inside it.
\<close>

theorem allocator_share_invariant:
  "(\<exists>a. allocator_calls (AdaptiveBucketAllocator_init rpm tpm) cs = Inr a \<and>
        shares_ok (shares a) \<and> strictly_increasing (boundaries a)) \<and>
   (shares_ok (shares b) \<and> strictly_increasing (boundaries b) \<longrightarrow>
      (\<exists>b'. on_window_end b = Inr b' \<and>
         shares_ok (shares b') \<and> strictly_increasing (boundaries b')))"
  using allocator_calls_inv [OF alloc_inv_init, of rpm tpm cs] on_window_end_inv [of b]
  by (simp add: alloc_inv_def)

theorem allocator_share_invariant_witness:
  "(\<exists>a. allocator_calls (AdaptiveBucketAllocator_init 8100 3795000)
          [RecordArrival 100, RecordAccept 100, OnWindowEnd] = Inr a \<and>
        shares_ok (shares a) \<and> strictly_increasing (boundaries a)) \<and>
   shares_ok (shares (AdaptiveBucketAllocator_init 8100 3795000)) \<and>
   strictly_increasing (boundaries (AdaptiveBucketAllocator_init 8100 3795000)) \<and>
   (\<exists>b'. on_window_end (AdaptiveBucketAllocator_init 8100 3795000) = Inr b' \<and>
         shares_ok (shares b') \<and> strictly_increasing (boundaries b'))"
proof -
  have pre: "shares_ok (shares (AdaptiveBucketAllocator_init 8100 3795000)) \<and>
      strictly_increasing (boundaries (AdaptiveBucketAllocator_init 8100 3795000))"
    by (simp add: AdaptiveBucketAllocator_init_def shares_ok_def strictly_increasing_def)
  from allocator_share_invariant [of 8100 3795000 "[RecordArrival 100, RecordAccept 100, OnWindowEnd]"
      "AdaptiveBucketAllocator_init 8100 3795000"] pre
  show ?thesis by blast
qed

text \<open>
  The claim C3 as written fails on the band. Two arrivals, of 100 and of 1000 tokens, both
  accepted, and then the window end: the scores of the first two buckets are clamped to about
  0.37 and 0.50, the other two to 0.10, the normalised target of the last bucket is below
  0.10, and its share after the re-balance is about 0.0947.
\<close>

theorem allocator_share_band_counterexample:
  "case allocator_calls (AdaptiveBucketAllocator_init 8100 3795000)
     [RecordArrival 100, RecordAccept 100, RecordArrival 1000, RecordAccept 1000, OnWindowEnd] of
     Inl e \<Rightarrow> False
   | Inr a \<Rightarrow> shares a ! 3 < 0.10"
  by (simp add: AdaptiveBucketAllocator_init_def record_arrival_def record_accept_def bucket_of_def
     bucket_index_def append_maxlen_def on_window_end_def update_boundaries_def update_shares_def
     rebalance_shares_def share_scores_def share_step_def Let_def upt_rec)

section \<open>Properties of the full-pipeline policy\<close>

lemma rebalance_buckets_inv:
  assumes "policy_inv p"
  shows "\<exists>p'. rebalance_buckets p = Inr p' \<and> policy_inv p' \<and> alpha p' = alpha p"
proof (cases "length (hist_tokens p) < 200")
  case True
  with assms show ?thesis by (simp add: rebalance_buckets_def)
next
  case False
  from assms have sh: "shares_ok (shares_fp p)" by (simp add: policy_inv_def)
  have "\<exists>sh'. rebalance_shares (share_scores wa wk wt wr) (shares_fp p) = Inr sh' \<and> shares_ok sh'"
    for wa wk wt wr
    using rebalance_shares_ok [OF share_scores_length share_scores_pos sh] .
  then obtain sh' where "rebalance_shares (share_scores (win_arrival_fp p) (win_accept p)
       (win_tokens_fp p) (win_reject_fp p)) (shares_fp p) = Inr sh'" "shares_ok sh'"
    by blast
  with False assms show ?thesis
    by (simp add: rebalance_buckets_def Let_def policy_inv_def)
qed

lemma alpha_step_range: "0.65 \<le> x \<Longrightarrow> x \<le> 1 \<Longrightarrow> 0.65 \<le> alpha_step x m \<and> alpha_step x m \<le> 1"
  by (auto simp: alpha_step_def max_def min_def)

lemma on_window_inv:
  assumes "policy_inv p"
  shows "\<exists>p'. on_window p m = Inr p' \<and> policy_inv p' \<and> alpha p' = alpha_step (alpha p) m"
proof -
  define q where "q = p\<lparr>alpha := alpha_step (alpha p) m\<rparr>"
  have w: "on_window p m = rebalance_buckets q"
    by (simp add: on_window_def q_def alpha_step_def)
  from assms have "policy_inv q"
    using alpha_step_range [of "alpha p" m] by (simp add: q_def policy_inv_def)
  from rebalance_buckets_inv [OF this] show ?thesis
    by (simp add: w q_def)
qed

lemma policy_call_inv:
  assumes "policy_inv p"
  shows "\<exists>p'. apply_policy_call p c = Inr p' \<and> policy_inv p'"
proof (cases c)
  case (EstimateTokens r)
  with assms show ?thesis by (simp add: estimate_tokens_def policy_inv_def Let_def)
next
  case (Admit now est)
  with assms show ?thesis by (simp add: admit_def refill_fp_def policy_inv_def Let_def)
next
  case (OnResult r accepted)
  with assms show ?thesis by (simp add: on_result_def policy_inv_def Let_def)
next
  case (OnWindow m)
  with on_window_inv [OF assms, of m] show ?thesis by auto
qed

lemma policy_calls_inv:
  "policy_inv p \<Longrightarrow> \<exists>p'. policy_calls p cs = Inr p' \<and> policy_inv p'"
proof (induction cs arbitrary: p)
  case Nil
  then show ?case by simp
next
  case (Cons c cs)
  from policy_call_inv [OF Cons.prems] obtain p1
    where "apply_policy_call p c = Inr p1" "policy_inv p1" by blast
  with Cons.IH [of p1] show ?case by simp
qed

lemma policy_inv_init: "policy_inv (FullPipelinePolicy_init rpm tpm cap)"
  by (simp add: policy_inv_def FullPipelinePolicy_init_def shares_ok_def)

text \<open>
  C8, as the code has it. From the constructed policy, after any sequence of the calls the
  engine makes (every sequence of \<^verbatim>\<open>on_window\<close> calls included), no call has raised and
  \<open>alpha\<close> lies in \<open>[0.65, 1.0]\<close>. On a window where p95 time-to-first-token exceeds 1400,
  the simulated-GC frequency exceeds 1.8 or the reject rate exceeds 0.50, alpha is multiplied
  by 0.92 and floored at 0.65; on a window where all three are low (below 1150, 1.2 and 0.40)
  alpha is increased by 0.02 and capped at 1.0; on every other window alpha is unchanged.
\<close>

theorem alpha_suppression:
  "(\<exists>p'. policy_calls (FullPipelinePolicy_init rpm tpm cap) cs = Inr p' \<and>
         0.65 \<le> alpha p' \<and> alpha p' \<le> 1) \<and>
   (policy_inv p \<longrightarrow>
      (\<exists>p'. on_window p m = Inr p' \<and> 0.65 \<le> alpha p' \<and> alpha p' \<le> 1 \<and>
         alpha p' =
           (if p95_ttft_ms_fp m > 1400 \<or> sim_gc_freq m > 1.8 \<or> reject_rate m > 0.50
              then max 0.65 (alpha p * 0.92)
            else if p95_ttft_ms_fp m < 1150 \<and> sim_gc_freq m < 1.2 \<and> reject_rate m < 0.40
              then min 1 (alpha p + 0.02)
            else alpha p)))"
proof -
  have "\<exists>p'. policy_calls (FullPipelinePolicy_init rpm tpm cap) cs = Inr p' \<and>
         0.65 \<le> alpha p' \<and> alpha p' \<le> 1"
    using policy_calls_inv [OF policy_inv_init, of rpm tpm cap cs]
    by (auto simp: policy_inv_def)
  moreover have "\<exists>p'. on_window p m = Inr p' \<and> 0.65 \<le> alpha p' \<and> alpha p' \<le> 1 \<and>
         alpha p' = alpha_step (alpha p) m" if "policy_inv p"
    using on_window_inv [OF that, of m] by (auto simp: policy_inv_def)
  ultimately show ?thesis
    unfolding alpha_step_def by blast
qed

theorem alpha_suppression_witness:
  "(\<exists>p'. policy_calls (FullPipelinePolicy_init 8100 3795000 95)
      [OnWindow \<lparr>p95_ttft_ms_fp = 1500, p95_e2e_ms = 0, sim_gc_freq = 0, reject_rate = 0\<rparr>,
       OnWindow \<lparr>p95_ttft_ms_fp = 100, p95_e2e_ms = 0, sim_gc_freq = 0, reject_rate = 0\<rparr>] = Inr p' \<and>
      0.65 \<le> alpha p' \<and> alpha p' \<le> 1) \<and>
   policy_inv (FullPipelinePolicy_init 8100 3795000 95) \<and>
   (\<exists>p'. on_window (FullPipelinePolicy_init 8100 3795000 95)
      \<lparr>p95_ttft_ms_fp = 1500, p95_e2e_ms = 0, sim_gc_freq = 0, reject_rate = 0\<rparr> = Inr p' \<and>
      alpha p' = 0.92)"
proof -
  have pre: "policy_inv (FullPipelinePolicy_init 8100 3795000 95)"
    by (simp add: policy_inv_def FullPipelinePolicy_init_def shares_ok_def)
  have a: "alpha (FullPipelinePolicy_init 8100 3795000 95) = 1"
    by (simp add: FullPipelinePolicy_init_def)
  from alpha_suppression [of 8100 3795000 95
      "[OnWindow \<lparr>p95_ttft_ms_fp = 1500, p95_e2e_ms = 0, sim_gc_freq = 0, reject_rate = 0\<rparr>,
        OnWindow \<lparr>p95_ttft_ms_fp = 100, p95_e2e_ms = 0, sim_gc_freq = 0, reject_rate = 0\<rparr>]"
      "FullPipelinePolicy_init 8100 3795000 95"
      "\<lparr>p95_ttft_ms_fp = 1500, p95_e2e_ms = 0, sim_gc_freq = 0, reject_rate = 0\<rparr>"] pre
  show ?thesis
    unfolding a by auto
qed

text \<open>
  The claim C8 as written fails on the windows between the two sets of thresholds. After one
  tightening window alpha is 0.92; a following window with p95 time-to-first-token 1200 and no
  GC event and no reject exceeds no threshold, and alpha stays 0.92 instead of rising to 0.94.
\<close>

theorem alpha_dead_band_counterexample:
  "\<not> (p95_ttft_ms_fp \<lparr>p95_ttft_ms_fp = 1200, p95_e2e_ms = 0, sim_gc_freq = 0, reject_rate = 0\<rparr> > 1400 \<or>
      sim_gc_freq \<lparr>p95_ttft_ms_fp = 1200, p95_e2e_ms = 0, sim_gc_freq = 0, reject_rate = 0\<rparr> > 1.8 \<or>
      reject_rate \<lparr>p95_ttft_ms_fp = 1200, p95_e2e_ms = 0, sim_gc_freq = 0, reject_rate = 0\<rparr> > 0.50) \<and>
   (case policy_calls (FullPipelinePolicy_init 8100 3795000 95)
      [OnWindow \<lparr>p95_ttft_ms_fp = 1500, p95_e2e_ms = 0, sim_gc_freq = 0, reject_rate = 0\<rparr>] of
      Inl e \<Rightarrow> False
    | Inr p \<Rightarrow>
        alpha p = 0.92 \<and>
        (case on_window p \<lparr>p95_ttft_ms_fp = 1200, p95_e2e_ms = 0, sim_gc_freq = 0, reject_rate = 0\<rparr> of
           Inl e \<Rightarrow> False
         | Inr p' \<Rightarrow> alpha p' = 0.92 \<and> alpha p' \<noteq> min 1 (alpha p + 0.02)))"
  by (simp add: FullPipelinePolicy_init_def on_window_def rebalance_buckets_def)

section \<open>Seats and the controller limit\<close>

lemma refill_inflight [simp]: "inflight (refill n now) = inflight n"
  by (simp add: refill_def Let_def)

lemma refill_phys [simp]: "max_physical_concurrency (refill n now) = max_physical_concurrency n"
  by (simp add: refill_def Let_def)

lemma refill_node_id [simp]: "node_id (refill n now) = node_id n"
  by (simp add: refill_def Let_def)

lemma can_start_snd: "snd (can_start n now k a) = refill n now"
  by (simp add: can_start_def Let_def)













lemma expire_queue_nodes [simp]:
  "nodes (expire_queue now s) = nodes s \<and> controller (expire_queue now s) = controller s"
proof (induction now s rule: expire_queue.induct)
  case (1 now s)
  show ?case
  proof (cases "queue s \<noteq> [] \<and> timed_out now (hd (queue s))")
    case True
    from "1.IH" [OF True] True show ?thesis
      by (subst (1 2) expire_queue.simps) simp
  next
    case False
    then have "expire_queue now s = s"
      by (subst expire_queue.simps) auto
    then show ?thesis by simp
  qed
qed

lemma close_window_nodes [simp]: "nodes (close_window s) = nodes s"
  by (simp add: close_window_def Let_def)

lemma close_window_limits [simp]:
  "limit_min (controller (close_window s)) = limit_min (controller s)"
  "limit_max (controller (close_window s)) = limit_max (controller s)"
  by (simp_all add: close_window_def Let_def)

lemma roll_windows_nodes [simp]:
  "nodes (roll_windows now s) = nodes s \<and>
   limit_min (controller (roll_windows now s)) = limit_min (controller s) \<and>
   limit_max (controller (roll_windows now s)) = limit_max (controller s)"
proof (induction now s rule: roll_windows.induct)
  case (1 now s)
  show ?case
  proof (cases "now \<ge> real_of_int (sec_cursor s) + 1")
    case True
    from "1.IH" [OF True] True show ?thesis
      by (subst (1 2 3) roll_windows.simps) simp
  next
    case False
    then show ?thesis by (subst (1 2 3) roll_windows.simps) simp
  qed
qed



lemma arrive_nodes [simp]:
  "nodes (arrive reqs now s) = nodes s" "controller (arrive reqs now s) = controller s"
  by (simp_all add: arrive_def Let_def)




















section \<open>Properties of the queue\<close>

lemma expire_queue_unfold_stop:
  "queue s = [] \<or> \<not> timed_out now (hd (queue s)) \<Longrightarrow> expire_queue now s = s"
  by (subst expire_queue.simps) auto

lemma expire_queue_spec:
  "\<exists>removed. queue s = removed @ queue (expire_queue now s) \<and>
     list_all (timed_out now) removed \<and>
     (queue (expire_queue now s) = [] \<or> \<not> timed_out now (hd (queue (expire_queue now s)))) \<and>
     rejected (expire_queue now s) = rejected s + int (length removed) \<and>
     sec_rejected (expire_queue now s) = sec_rejected s + int (length removed) \<and>
     rejected_reason (expire_queue now s) ''QUEUE_TIMEOUT'' =
       rejected_reason s ''QUEUE_TIMEOUT'' + int (length removed) \<and>
     accepted (expire_queue now s) = accepted s \<and> idx (expire_queue now s) = idx s"
proof (induction now s rule: expire_queue.induct)
  case (1 now s)
  show ?case
  proof (cases "queue s \<noteq> [] \<and> timed_out now (hd (queue s))")
    case False
    then have "expire_queue now s = s"
      by (intro expire_queue_unfold_stop) auto
    with False show ?thesis
      by (intro exI [of _ "[]"]) auto
  next
    case True
    define s1 where "s1 = s\<lparr>queue := tl (queue s), rejected := rejected s + 1,
        sec_rejected := sec_rejected s + 1,
        rejected_reason := (rejected_reason s)
          (''QUEUE_TIMEOUT'' := rejected_reason s ''QUEUE_TIMEOUT'' + 1)\<rparr>"
    from True have eq: "expire_queue now s = expire_queue now s1"
      by (subst expire_queue.simps) (simp add: s1_def)
    from "1.IH" [OF True, folded s1_def] obtain removed where
      r: "queue s1 = removed @ queue (expire_queue now s1)"
        "list_all (timed_out now) removed"
        "queue (expire_queue now s1) = [] \<or> \<not> timed_out now (hd (queue (expire_queue now s1)))"
        "rejected (expire_queue now s1) = rejected s1 + int (length removed)"
        "sec_rejected (expire_queue now s1) = sec_rejected s1 + int (length removed)"
        "rejected_reason (expire_queue now s1) ''QUEUE_TIMEOUT'' =
           rejected_reason s1 ''QUEUE_TIMEOUT'' + int (length removed)"
        "accepted (expire_queue now s1) = accepted s1" "idx (expire_queue now s1) = idx s1"
      by blast
    from True have q: "queue s = hd (queue s) # queue s1"
      by (simp add: s1_def)
    show ?thesis
      unfolding eq
    proof (intro exI [of _ "hd (queue s) # removed"] conjI)
      show "queue s = (hd (queue s) # removed) @ queue (expire_queue now s1)"
        using q r(1) by simp
      show "list_all (timed_out now) (hd (queue s) # removed)"
        using True r(2) by simp
    qed (use r in \<open>simp_all add: s1_def\<close>)
  qed
qed

lemma expire_queue_idem: "expire_queue now (expire_queue now s) = expire_queue now s"
  using expire_queue_spec [of s now] by (auto intro: expire_queue_unfold_stop)

lemma sorted_tail_not_timed_out:
  assumes "sorted (map arrival_ts q)" "q = [] \<or> \<not> timed_out now (hd q)"
  shows "list_all (\<lambda>r. \<not> timed_out now r) q"
proof (cases q)
  case Nil
  then show ?thesis by simp
next
  case (Cons a q')
  with assms have "\<not> timed_out now a" "\<forall>r\<in>set q'. arrival_ts a \<le> arrival_ts r"
    by auto
  then show ?thesis
    unfolding Cons by (auto simp: timed_out_def list_all_iff)
qed

lemma queue_inv_init: "queue_inv reqs (init_state ns c)"
  by (simp add: queue_inv_def init_state_def)

lemma queue_inv_sorted:
  assumes "sorted (map arrival_ts reqs)" "queue_inv reqs s"
  shows "sorted (map arrival_ts (queue s))"
proof -
  from assms(2) have "map arrival_ts (queue s) =
      drop (nat (accepted s + rejected s)) (take (idx s) (map arrival_ts reqs))"
    by (simp add: queue_inv_def drop_map take_map)
  with assms(1) show ?thesis by simp
qed

lemma arrive_queue_inv:
  assumes "queue_inv reqs s"
  shows "queue_inv reqs (arrive reqs now s)"
proof -
  define new where "new = takeWhile (\<lambda>r. arrival_ts r \<le> now) (drop (idx s) reqs)"
  define k where "k = nat (accepted s + rejected s)"
  from assms have q: "queue s = drop k (take (idx s) reqs)" and k: "k \<le> idx s"
    and i: "idx s \<le> length reqs"
    by (simp_all add: queue_inv_def k_def)
  have new: "new = take (length new) (drop (idx s) reqs)"
    unfolding new_def by (rule takeWhile_eq_take)
  have len: "length new \<le> length reqs - idx s"
    unfolding new_def using length_takeWhile_le [of _ "drop (idx s) reqs"] by simp
  have "drop k (take (idx s + length new) reqs) =
      drop k (take (idx s) reqs @ take (length new) (drop (idx s) reqs))"
    by (simp add: take_add)
  also have "\<dots> = drop k (take (idx s) reqs) @ new"
    using k i new by simp
  finally have "queue s @ new = drop k (take (idx s + length new) reqs)"
    using q by simp
  with assms k i len show ?thesis
    by (simp add: queue_inv_def arrive_def Let_def new_def [symmetric] k_def [symmetric])
qed

lemma complete_queue_inv:
  "complete now s = Inr s' \<Longrightarrow> queue_inv reqs s \<Longrightarrow> queue_inv reqs s'"
  by (auto simp: complete_def Let_def queue_inv_def split: if_splits sum.splits)

lemma expire_queue_inv:
  assumes "queue_inv reqs s"
  shows "queue_inv reqs (expire_queue now s)"
proof -
  define s' where "s' = expire_queue now s"
  define k where "k = nat (accepted s + rejected s)"
  from expire_queue_spec [of s now] obtain removed where
    r: "queue s = removed @ queue s'"
      "rejected s' = rejected s + int (length removed)"
      "rejected_reason s' ''QUEUE_TIMEOUT'' = rejected_reason s ''QUEUE_TIMEOUT'' + int (length removed)"
      "accepted s' = accepted s" "idx s' = idx s"
    unfolding s'_def by blast
  from assms have q: "queue s = drop k (take (idx s) reqs)" and k: "k \<le> idx s"
    and i: "idx s \<le> length reqs" and nn: "0 \<le> accepted s" "0 \<le> rejected s"
    and qt: "rejected_reason s ''QUEUE_TIMEOUT'' = rejected s"
    by (simp_all add: queue_inv_def k_def)
  have k': "nat (accepted s' + rejected s') = length removed + k"
    using r(2,4) nn by (simp add: k_def nat_add_distrib)
  have "length (queue s) = idx s - k"
    using q i by simp
  with r(1) have le: "length removed + k \<le> idx s"
    using k by simp
  have "drop (length removed + k) (take (idx s) reqs) = drop (length removed) (queue s)"
    using q by simp
  also have "\<dots> = queue s'"
    using r(1) by simp
  finally have "queue s' = drop (nat (accepted s' + rejected s')) (take (idx s') reqs)"
    using k' r(5) by simp
  with le k' r nn i qt show ?thesis
    unfolding s'_def [symmetric] by (simp add: queue_inv_def)
qed

lemma admit_one_queue_inv:
  assumes "admit_one pick now cap s = (started, s')" "queue_inv reqs s" "queue s \<noteq> []"
  shows "queue_inv reqs s'"
proof (cases started)
  case False
  with assms(1,2) show ?thesis
    by (auto simp: admit_one_def Let_def queue_inv_def split: prod.splits option.splits)
next
  case True
  with assms(1) have f: "queue s' = tl (queue s)" "accepted s' = accepted s + 1"
    "rejected s' = rejected s" "idx s' = idx s" "rejected_reason s' = rejected_reason s"
    by (auto simp: admit_one_def Let_def split: prod.splits option.splits)
  define k where "k = nat (accepted s + rejected s)"
  from assms(2) have q: "queue s = drop k (take (idx s) reqs)" and i: "idx s \<le> length reqs"
    and nn: "0 \<le> accepted s" "0 \<le> rejected s"
    and qt: "rejected_reason s ''QUEUE_TIMEOUT'' = rejected s"
    by (simp_all add: queue_inv_def k_def)
  from assms(3) q i have lt: "k < idx s" by simp
  have k': "nat (accepted s' + rejected s') = Suc k"
    using f nn by (simp add: k_def nat_add_distrib)
  have "tl (queue s) = drop (Suc k) (take (idx s) reqs)"
    unfolding q by (simp add: drop_Suc tl_drop)
  with f k' lt nn i qt show ?thesis
    by (simp add: queue_inv_def)
qed

lemma admit_loop_queue_inv:
  "queue_inv reqs s \<Longrightarrow> queue_inv reqs (admit_loop pick now cap T s)"
proof (induction pick now cap T s rule: admit_loop.induct)
  case (1 pick now cap T s)
  obtain started s' where a: "admit_one pick now cap s = (started, s')"
    by (metis prod.exhaust)
  show ?case
  proof (cases "queue s \<noteq> [] \<and> T < cap")
    case False
    then have "admit_loop pick now cap T s = s"
      by (subst admit_loop.simps) auto
    with "1.prems" show ?thesis by simp
  next
    case True
    from admit_one_queue_inv [OF a "1.prems"] True have inv: "queue_inv reqs s'" by simp
    show ?thesis
    proof (cases started)
      case False
      with True a have "admit_loop pick now cap T s = s'"
        by (subst admit_loop.simps) simp
      with inv show ?thesis by simp
    next
      case started: True
      with True a have eq: "admit_loop pick now cap T s = admit_loop pick now cap (T + 1) s'"
        by (subst admit_loop.simps) simp
      from "1.IH" [OF True a [symmetric] refl started inv] show ?thesis
        unfolding eq .
    qed
  qed
qed

lemma close_window_queue_inv: "queue_inv reqs s \<Longrightarrow> queue_inv reqs (close_window s)"
  by (simp add: close_window_def Let_def queue_inv_def)

lemma roll_windows_queue_inv: "queue_inv reqs s \<Longrightarrow> queue_inv reqs (roll_windows now s)"
proof (induction now s rule: roll_windows.induct)
  case (1 now s)
  show ?case
  proof (cases "now \<ge> real_of_int (sec_cursor s) + 1")
    case True
    from "1.IH" [OF True close_window_queue_inv [OF "1.prems"]] True show ?thesis
      by (subst roll_windows.simps) simp
  next
    case False
    with "1.prems" show ?thesis by (subst roll_windows.simps) simp
  qed
qed

lemma tick_queue_inv:
  assumes "tick pick reqs now s = Inr s'" "queue_inv reqs s"
  shows "queue_inv reqs s'"
proof -
  from assms(1) obtain s1 where c: "complete now (arrive reqs now s) = Inr s1"
    by (auto simp: tick_def split: sum.splits)
  define s2 where "s2 = expire_queue now s1"
  define s3 where "s3 = admit_loop pick now (current_limit (controller s2)) (sum_inflight (nodes s2)) s2"
  define s4 where "s4 = s3\<lparr>peak_concurrency := max (peak_concurrency s3) (sum_inflight (nodes s3))\<rparr>"
  from assms(1) c have s': "s' = roll_windows now s4"
    by (simp add: tick_def Let_def s2_def s3_def s4_def)
  from complete_queue_inv [OF c arrive_queue_inv [OF assms(2)]] have "queue_inv reqs s1" .
  then have "queue_inv reqs s2" unfolding s2_def by (rule expire_queue_inv)
  then have "queue_inv reqs s3" unfolding s3_def by (rule admit_loop_queue_inv)
  then have "queue_inv reqs s4" by (simp add: s4_def queue_inv_def)
  then show ?thesis unfolding s' by (rule roll_windows_queue_inv)
qed

lemma run_ticks_queue_inv:
  "run_ticks pick reqs end_time n now s = Inr (now', s') \<Longrightarrow> queue_inv reqs s \<Longrightarrow>
     queue_inv reqs s'"
proof (induction n arbitrary: now s)
  case 0
  then show ?case by simp
next
  case (Suc n)
  show ?case
  proof (cases "now \<le> end_time")
    case True
    with Suc.prems(1) obtain s1 where t: "tick pick reqs now s = Inr s1"
      and r: "run_ticks pick reqs end_time n (now + dt) s1 = Inr (now', s')"
      by (auto split: sum.splits)
    from Suc.IH [OF r tick_queue_inv [OF t Suc.prems(2)]] show ?thesis .
  next
    case False
    with Suc.prems show ?thesis by simp
  qed
qed

lemma expire_queue_one_spec:
  "expire_queue_one t now q (rj, sr, qt, a) = (q', rj', sr', qt', a') \<Longrightarrow>
     \<exists>removed. q = removed @ q' \<and> list_all (\<lambda>r. now - arrival_ts r > t) removed \<and>
       (q' = [] \<or> \<not> now - arrival_ts (hd q') > t) \<and>
       rj' = rj + int (length removed) \<and> sr' = sr + int (length removed) \<and>
       qt' = qt + int (length removed)"
proof (induction q arbitrary: rj sr qt a)
  case Nil
  then show ?case by simp
next
  case (Cons r q)
  show ?case
  proof (cases "now - arrival_ts r > t")
    case False
    with Cons.prems show ?thesis
      by (intro exI [of _ "[]"]) auto
  next
    case True
    with Cons.prems have "expire_queue_one t now q
        (rj + 1, sr + 1, qt + 1, map_option (\<lambda>a. record_reject a (total_tokens r)) a) =
        (q', rj', sr', qt', a')"
      by simp
    from Cons.IH [OF this] obtain removed where
      "q = removed @ q'" "list_all (\<lambda>r. now - arrival_ts r > t) removed"
      "q' = [] \<or> \<not> now - arrival_ts (hd q') > t"
      "rj' = rj + 1 + int (length removed)" "sr' = sr + 1 + int (length removed)"
      "qt' = qt + 1 + int (length removed)"
      by blast
    with True show ?thesis
      by (intro exI [of _ "r # removed"]) auto
  qed
qed

lemma run_ticks_idle:
  assumes idle: "\<And>t. lo < t \<Longrightarrow> t + dt \<le> hi \<Longrightarrow> tick pick reqs t X = Inr X"
    and hi: "hi \<le> end_time"
  shows "lo < now \<Longrightarrow> now + real n * dt \<le> hi \<Longrightarrow>
     run_ticks pick reqs end_time (n + m) now X =
     run_ticks pick reqs end_time m (now + real n * dt) X"
proof (induction n arbitrary: now)
  case 0
  then show ?case by simp
next
  case (Suc n)
  have d: "0 < dt" by (simp add: dt_def)
  define x where "x = real n * dt"
  have nn: "0 \<le> x" by (simp add: x_def dt_def)
  from Suc.prems(2) have le: "now + dt + x \<le> hi"
    by (simp add: x_def algebra_simps)
  from Suc.prems(1) d nn le hi have lt: "now + dt \<le> hi" "now \<le> end_time"
    by linarith+
  from Suc.prems(1) d le have "lo < now + dt" "now + dt + real n * dt \<le> hi"
    by (simp_all add: x_def)
  from Suc.IH [OF this] lt idle [OF Suc.prems(1) lt(1)] show ?case
    by (simp add: algebra_simps)
qed

lemma admit_one_fields:
  assumes "admit_one pick now cap s = (started, s')"
  shows "rejected s' = rejected s" "rejected_reason s' = rejected_reason s" "idx s' = idx s"
    "queue s' = (if started then tl (queue s) else queue s)"
    "accepted s' = (if started then accepted s + 1 else accepted s)"
  using assms by (auto simp: admit_one_def Let_def split: prod.splits option.splits)

lemma admit_loop_spec:
  "\<exists>started. queue s = started @ queue (admit_loop pick now cap T s) \<and>
     accepted (admit_loop pick now cap T s) = accepted s + int (length started) \<and>
     rejected (admit_loop pick now cap T s) = rejected s \<and>
     rejected_reason (admit_loop pick now cap T s) = rejected_reason s \<and>
     idx (admit_loop pick now cap T s) = idx s"
proof (induction pick now cap T s rule: admit_loop.induct)
  case (1 pick now cap T s)
  obtain started s' where a: "admit_one pick now cap s = (started, s')"
    by (metis prod.exhaust)
  show ?case
  proof (cases "queue s \<noteq> [] \<and> T < cap")
    case False
    then have "admit_loop pick now cap T s = s"
      by (subst admit_loop.simps) auto
    then show ?thesis
      by (intro exI [of _ "[]"]) simp
  next
    case True
    note f = admit_one_fields [OF a]
    show ?thesis
    proof (cases started)
      case False
      with True a have "admit_loop pick now cap T s = s'"
        by (subst admit_loop.simps) simp
      with f False show ?thesis
        by (intro exI [of _ "[]"]) simp
    next
      case started: True
      with True a have eq: "admit_loop pick now cap T s = admit_loop pick now cap (T + 1) s'"
        by (subst admit_loop.simps) simp
      from "1.IH" [OF True a [symmetric] refl started] obtain st where
        r: "queue s' = st @ queue (admit_loop pick now cap (T + 1) s')"
          "accepted (admit_loop pick now cap (T + 1) s') = accepted s' + int (length st)"
          "rejected (admit_loop pick now cap (T + 1) s') = rejected s'"
          "rejected_reason (admit_loop pick now cap (T + 1) s') = rejected_reason s'"
          "idx (admit_loop pick now cap (T + 1) s') = idx s'"
        by blast
      from True started f have q: "queue s = hd (queue s) # queue s'"
        by simp
      show ?thesis
        unfolding eq
      proof (intro exI [of _ "hd (queue s) # st"] conjI)
        show "queue s = (hd (queue s) # st) @ queue (admit_loop pick now cap (T + 1) s')"
          using q r(1) by simp
      qed (use r f started in simp_all)
    qed
  qed
qed

lemma close_window_fields:
  "queue (close_window s) = queue s \<and> accepted (close_window s) = accepted s \<and>
   rejected (close_window s) = rejected s \<and>
   rejected_reason (close_window s) = rejected_reason s \<and> idx (close_window s) = idx s"
  by (simp add: close_window_def Let_def)

lemma roll_windows_fields:
  "queue (roll_windows now s) = queue s \<and> accepted (roll_windows now s) = accepted s \<and>
   rejected (roll_windows now s) = rejected s \<and>
   rejected_reason (roll_windows now s) = rejected_reason s \<and> idx (roll_windows now s) = idx s"
proof (induction now s rule: roll_windows.induct)
  case (1 now s)
  show ?case
  proof (cases "now \<ge> real_of_int (sec_cursor s) + 1")
    case True
    from "1.IH" [OF True] True close_window_fields [of s] show ?thesis
      by (subst (1 2 3 4 5) roll_windows.simps) simp
  next
    case False
    then show ?thesis by (subst (1 2 3 4 5) roll_windows.simps) simp
  qed
qed

lemma complete_fields:
  assumes "complete now s = Inr s'"
  shows "queue s' = queue s" "accepted s' = accepted s" "rejected s' = rejected s"
    "rejected_reason s' = rejected_reason s" "idx s' = idx s"
  using assms by (auto simp: complete_def Let_def split: if_splits sum.splits)

text \<open>What one pass of the tick loop does to the queue and the counters.\<close>

lemma tick_spec:
  assumes "tick pick reqs now s = Inr s'"
  shows "\<exists>removed started.
     queue (arrive reqs now s) = removed @ started @ queue s' \<and>
     list_all (timed_out now) removed \<and>
     (started @ queue s' = [] \<or> \<not> timed_out now (hd (started @ queue s'))) \<and>
     rejected s' = rejected s + int (length removed) \<and>
     rejected_reason s' ''QUEUE_TIMEOUT'' =
       rejected_reason s ''QUEUE_TIMEOUT'' + int (length removed) \<and>
     accepted s' = accepted s + int (length started) \<and>
     idx s' = idx (arrive reqs now s)"
proof -
  from assms obtain s1 where c: "complete now (arrive reqs now s) = Inr s1"
    by (auto simp: tick_def split: sum.splits)
  define s2 where "s2 = expire_queue now s1"
  define s3 where "s3 = admit_loop pick now (current_limit (controller s2)) (sum_inflight (nodes s2)) s2"
  define s4 where "s4 = s3\<lparr>peak_concurrency := max (peak_concurrency s3) (sum_inflight (nodes s3))\<rparr>"
  from assms c have s': "s' = roll_windows now s4"
    by (simp add: tick_def Let_def s2_def s3_def s4_def)
  note f1 = complete_fields [OF c]
  have f0: "accepted (arrive reqs now s) = accepted s" "rejected (arrive reqs now s) = rejected s"
    "rejected_reason (arrive reqs now s) = rejected_reason s"
    by (simp_all add: arrive_def Let_def)
  from expire_queue_spec [of s1 now] obtain removed where
    r: "queue s1 = removed @ queue s2" "list_all (timed_out now) removed"
      "queue s2 = [] \<or> \<not> timed_out now (hd (queue s2))"
      "rejected s2 = rejected s1 + int (length removed)"
      "rejected_reason s2 ''QUEUE_TIMEOUT'' =
         rejected_reason s1 ''QUEUE_TIMEOUT'' + int (length removed)"
      "accepted s2 = accepted s1" "idx s2 = idx s1"
    unfolding s2_def by blast
  from admit_loop_spec [of s2 pick now "current_limit (controller s2)" "sum_inflight (nodes s2)"]
  obtain started where
    a: "queue s2 = started @ queue s3" "accepted s3 = accepted s2 + int (length started)"
      "rejected s3 = rejected s2" "rejected_reason s3 = rejected_reason s2" "idx s3 = idx s2"
    unfolding s3_def by blast
  have f4: "queue s' = queue s3" "accepted s' = accepted s3" "rejected s' = rejected s3"
    "rejected_reason s' = rejected_reason s3" "idx s' = idx s3"
    unfolding s' using roll_windows_fields [of now s4] by (simp_all add: s4_def)
  show ?thesis
  proof (rule exI [of _ removed], rule exI [of _ started], intro conjI)
    show "queue (arrive reqs now s) = removed @ started @ queue s'"
      using f1(1) r(1) a(1) f4(1) by simp
    show "list_all (timed_out now) removed" by (rule r(2))
    show "started @ queue s' = [] \<or> \<not> timed_out now (hd (started @ queue s'))"
      using r(3) a(1) f4(1) by simp
    show "rejected s' = rejected s + int (length removed)"
      using f4(3) a(3) r(4) f1(3) f0(2) by simp
    show "rejected_reason s' ''QUEUE_TIMEOUT'' =
        rejected_reason s ''QUEUE_TIMEOUT'' + int (length removed)"
      using f4(4) a(4) r(5) f1(4) f0(3) by simp
    show "accepted s' = accepted s + int (length started)"
      using f4(2) a(2) r(6) f1(2) f0(1) by simp
    show "idx s' = idx (arrive reqs now s)"
      using f4(5) a(5) r(7) f1(5) by simp
  qed
qed

lemma tx_tick_0:
  "t < 1 / 100 \<Longrightarrow>
     tick cx_pick [tx_req] t (init_state [cx_node] (Fixed 0)) = Inr (init_state [cx_node] (Fixed 0))"
  by (simp add: tick_def arrive_def complete_def expire_queue.simps timed_out_def
      admit_loop.simps roll_windows.simps tx_req_def init_state_def
      sum_inflight_def cx_node_def NodeState_init_def Let_def)

lemma tx_tick_1: "tick cx_pick [tx_req] (1 / 50) (init_state [cx_node] (Fixed 0)) = Inr tx_state_1"
  by (simp add: tick_def arrive_def complete_def expire_queue.simps timed_out_def
      admit_loop.simps roll_windows.simps tx_state_1_def tx_req_def init_state_def
      sum_inflight_def cx_node_def NodeState_init_def Let_def)

lemma tx_tick_idle_1:
  "1 / 50 < t \<Longrightarrow> t < 1 \<Longrightarrow> tick cx_pick [tx_req] t tx_state_1 = Inr tx_state_1"
  by (simp add: tick_def arrive_def complete_def expire_queue.simps timed_out_def
      admit_loop.simps roll_windows.simps tx_state_1_def tx_req_def init_state_def
      sum_inflight_def cx_node_def NodeState_init_def Let_def)

lemma tx_tick_50: "tick cx_pick [tx_req] 1 tx_state_1 = Inr tx_state_2"
  by (simp add: tick_def arrive_def complete_def expire_queue.simps timed_out_def
      admit_loop.simps roll_windows.simps [of 1] close_window_def percentile_def
      tx_state_1_def tx_state_2_def tx_req_def init_state_def
      sum_inflight_def cx_node_def NodeState_init_def Let_def)

lemma tx_tick_idle_2:
  "1 < t \<Longrightarrow> t \<le> 6 / 5 \<Longrightarrow> tick cx_pick [tx_req] t tx_state_2 = Inr tx_state_2"
  by (simp add: tick_def arrive_def complete_def expire_queue.simps timed_out_def
      admit_loop.simps roll_windows.simps tx_state_1_def tx_state_2_def tx_req_def init_state_def
      sum_inflight_def cx_node_def NodeState_init_def Let_def)

lemma tx_tick_61: "tick cx_pick [tx_req] (61 / 50) tx_state_2 = Inr tx_state_3"
  by (simp add: tick_def arrive_def complete_def expire_queue.simps timed_out_def
      admit_loop.simps roll_windows.simps tx_state_1_def tx_state_2_def tx_state_3_def
      tx_req_def init_state_def sum_inflight_def cx_node_def NodeState_init_def Let_def)

lemma tx_run: "run_ticks cx_pick [tx_req] (2001 / 100) 61 0 (init_state [cx_node] (Fixed 0)) =
    Inr (61 / 50, tx_state_2)"
proof -
  have "run_ticks cx_pick [tx_req] (2001 / 100) 61 0 (init_state [cx_node] (Fixed 0)) =
      run_ticks cx_pick [tx_req] (2001 / 100) (48 + 11) (1 / 25) tx_state_1"
    by (simp add: eval_nat_numeral tx_tick_0 tx_tick_1 dt_def del: run_ticks.simps(2))
       (simp add: tx_tick_0 tx_tick_1 dt_def)
  also have "\<dots> = run_ticks cx_pick [tx_req] (2001 / 100) 11 (1 / 25 + real (48::nat) * dt) tx_state_1"
    by (rule run_ticks_idle [where lo = "1 / 50" and hi = 1]) (simp_all add: tx_tick_idle_1 dt_def)
  also have "\<dots> = run_ticks cx_pick [tx_req] (2001 / 100) (10 + 0) (51 / 50) tx_state_2"
    by (simp add: eval_nat_numeral tx_tick_50 dt_def del: run_ticks.simps(2))
       (simp add: tx_tick_50 dt_def)
  also have "\<dots> = run_ticks cx_pick [tx_req] (2001 / 100) 0 (51 / 50 + real (10::nat) * dt) tx_state_2"
    by (rule run_ticks_idle [where lo = 1 and hi = "61 / 50"]) (simp_all add: tx_tick_idle_2 dt_def)
  also have "\<dots> = Inr (61 / 50, tx_state_2)"
    by (simp add: dt_def)
  finally show ?thesis .
qed

text \<open>
  C7, as the code has it. Take any state the tick loop reaches and the tick made from it.
  Of the queue as it stands after the arrivals of that tick, the tick removes a block
  \<open>removed\<close> at the head, every request of which has waited more than 1.2 seconds, and
  then starts a block \<open>started\<close>; the rest is the queue after the tick. The request that
  stands at the head when the timeout loop stops has not waited more than 1.2 seconds.
  \<^verbatim>\<open>rejected\<close> and \<^verbatim>\<open>rejected_reason["QUEUE_TIMEOUT"]\<close> grow by exactly the number
  of removed requests and \<^verbatim>\<open>accepted\<close> by the number of started ones. The requests
  that stood in the queue are those of the input from position \<open>accepted + rejected\<close> up to
  \<^verbatim>\<open>idx\<close>, the queue after the tick is the block from the new \<open>accepted + rejected\<close>
  on, and after every tick \<^verbatim>\<open>rejected_reason["QUEUE_TIMEOUT"] = rejected\<close> and
  \<open>accepted + rejected + len(queue) = idx\<close>: the position \<open>accepted + rejected\<close> only moves
  forward, so a request that was removed is never in the queue again and is counted once.
  When the input is sorted by arrival, no request that is started or left in the queue by the
  tick has waited more than 1.2 seconds: every queued request whose wait exceeds the timeout
  is among the removed ones. The timeout loop of \<^verbatim>\<open>run_one\<close>, taken alone, removes and
  counts in the same way, for any timeout.
\<close>

theorem queue_timeout_once:
  assumes "run_ticks pick reqs end_time n 0 (init_state ns c) = Inr (now, s)"
    and "tick pick reqs now s = Inr s'"
  shows "(\<exists>removed started.
            queue (arrive reqs now s) = removed @ started @ queue s' \<and>
            queue (arrive reqs now s) = drop (nat (accepted s + rejected s)) (take (idx s') reqs) \<and>
            list_all (timed_out now) removed \<and>
            (started @ queue s' = [] \<or> \<not> timed_out now (hd (started @ queue s'))) \<and>
            (sorted (map arrival_ts reqs) \<longrightarrow>
               list_all (\<lambda>r. \<not> timed_out now r) (started @ queue s')) \<and>
            rejected s' = rejected s + int (length removed) \<and>
            rejected_reason s' ''QUEUE_TIMEOUT'' =
              rejected_reason s ''QUEUE_TIMEOUT'' + int (length removed) \<and>
            accepted s' = accepted s + int (length started)) \<and>
         queue s' = drop (nat (accepted s' + rejected s')) (take (idx s') reqs) \<and>
         rejected_reason s' ''QUEUE_TIMEOUT'' = rejected s' \<and>
         accepted s' + rejected s' + int (length (queue s')) = int (idx s') \<and>
         idx s' \<le> length reqs \<and>
         (\<exists>removed. q = removed @ fst (expire_queue_one t now q (rj, sr, qt, a)) \<and>
            list_all (\<lambda>r. now - arrival_ts r > t) removed \<and>
            (sorted (map arrival_ts q) \<longrightarrow>
               list_all (\<lambda>r. \<not> now - arrival_ts r > t)
                 (fst (expire_queue_one t now q (rj, sr, qt, a)))) \<and>
            fst (snd (expire_queue_one t now q (rj, sr, qt, a))) = rj + int (length removed) \<and>
            fst (snd (snd (snd (expire_queue_one t now q (rj, sr, qt, a))))) =
              qt + int (length removed))"
proof -
  from run_ticks_queue_inv [OF assms(1) queue_inv_init] have inv: "queue_inv reqs s" .
  then have inv0: "queue_inv reqs (arrive reqs now s)" by (rule arrive_queue_inv)
  from tick_queue_inv [OF assms(2) inv] have inv': "queue_inv reqs s'" .
  from tick_spec [OF assms(2)] obtain removed started where
    r: "queue (arrive reqs now s) = removed @ started @ queue s'"
      "list_all (timed_out now) removed"
      "started @ queue s' = [] \<or> \<not> timed_out now (hd (started @ queue s'))"
      "rejected s' = rejected s + int (length removed)"
      "rejected_reason s' ''QUEUE_TIMEOUT'' =
         rejected_reason s ''QUEUE_TIMEOUT'' + int (length removed)"
      "accepted s' = accepted s + int (length started)"
      "idx s' = idx (arrive reqs now s)"
    by blast
  from inv0 r(7) have blk:
    "queue (arrive reqs now s) = drop (nat (accepted s + rejected s)) (take (idx s') reqs)"
    by (simp add: queue_inv_def arrive_def Let_def)
  have all: "list_all (\<lambda>r. \<not> timed_out now r) (started @ queue s')"
    if "sorted (map arrival_ts reqs)"
  proof -
    from queue_inv_sorted [OF that inv0] r(1)
    have "sorted (map arrival_ts (started @ queue s'))"
      by (simp add: sorted_append)
    from this r(3) show ?thesis by (rule sorted_tail_not_timed_out)
  qed
  from r blk all have first: "\<exists>removed started.
            queue (arrive reqs now s) = removed @ started @ queue s' \<and>
            queue (arrive reqs now s) = drop (nat (accepted s + rejected s)) (take (idx s') reqs) \<and>
            list_all (timed_out now) removed \<and>
            (started @ queue s' = [] \<or> \<not> timed_out now (hd (started @ queue s'))) \<and>
            (sorted (map arrival_ts reqs) \<longrightarrow>
               list_all (\<lambda>r. \<not> timed_out now r) (started @ queue s')) \<and>
            rejected s' = rejected s + int (length removed) \<and>
            rejected_reason s' ''QUEUE_TIMEOUT'' =
              rejected_reason s ''QUEUE_TIMEOUT'' + int (length removed) \<and>
            accepted s' = accepted s + int (length started)"
    by blast
  from inv' have q': "queue s' = drop (nat (accepted s' + rejected s')) (take (idx s') reqs)"
    and qt': "rejected_reason s' ''QUEUE_TIMEOUT'' = rejected s'"
    and le': "idx s' \<le> length reqs"
    and k': "nat (accepted s' + rejected s') \<le> idx s'" and nn: "0 \<le> accepted s'" "0 \<le> rejected s'"
    by (simp_all add: queue_inv_def)
  from q' le' have "length (queue s') = idx s' - nat (accepted s' + rejected s')"
    by simp
  with k' nn have sum: "accepted s' + rejected s' + int (length (queue s')) = int (idx s')"
    by simp
  obtain q1 rj' sr' qt1 a' where e: "expire_queue_one t now q (rj, sr, qt, a) = (q1, rj', sr', qt1, a')"
    by (metis prod.exhaust)
  from expire_queue_one_spec [OF e] obtain removed1 where
    o: "q = removed1 @ q1" "list_all (\<lambda>r. now - arrival_ts r > t) removed1"
      "q1 = [] \<or> \<not> now - arrival_ts (hd q1) > t"
      "rj' = rj + int (length removed1)" "qt1 = qt + int (length removed1)"
    by blast
  have rest: "list_all (\<lambda>r. \<not> now - arrival_ts r > t) q1" if srt: "sorted (map arrival_ts q)"
  proof (cases q1)
    case Nil
    then show ?thesis by simp
  next
    case (Cons b q2)
    from srt o(1) have "sorted (map arrival_ts q1)"
      by (simp add: sorted_append)
    with Cons o(3) have "\<not> now - arrival_ts b > t" "\<forall>r\<in>set q2. arrival_ts b \<le> arrival_ts r"
      by auto
    then show ?thesis
      unfolding Cons by (auto simp: list_all_iff)
  qed
  have one: "\<exists>removed. q = removed @ fst (expire_queue_one t now q (rj, sr, qt, a)) \<and>
            list_all (\<lambda>r. now - arrival_ts r > t) removed \<and>
            (sorted (map arrival_ts q) \<longrightarrow>
               list_all (\<lambda>r. \<not> now - arrival_ts r > t)
                 (fst (expire_queue_one t now q (rj, sr, qt, a)))) \<and>
            fst (snd (expire_queue_one t now q (rj, sr, qt, a))) = rj + int (length removed) \<and>
            fst (snd (snd (snd (expire_queue_one t now q (rj, sr, qt, a))))) =
              qt + int (length removed)"
    unfolding e using o rest by (intro exI [of _ removed1]) simp
  from first q' qt' sum le' one show ?thesis
    by (intro conjI)
qed

theorem queue_timeout_once_witness:
  "sorted (map arrival_ts [tx_req]) \<and>
   run_ticks cx_pick [tx_req] (2001 / 100) 61 0 (init_state [cx_node] (Fixed 0)) =
     Inr (61 / 50, tx_state_2) \<and>
   tick cx_pick [tx_req] (61 / 50) tx_state_2 = Inr tx_state_3 \<and>
   queue tx_state_2 = [tx_req] \<and> timed_out (61 / 50) tx_req \<and>
   rejected tx_state_2 = 0 \<and> rejected_reason tx_state_2 ''QUEUE_TIMEOUT'' = 0 \<and>
   queue tx_state_3 = [] \<and> rejected tx_state_3 = 1 \<and>
   rejected_reason tx_state_3 ''QUEUE_TIMEOUT'' = 1 \<and> accepted tx_state_3 = 0 \<and>
   accepted tx_state_3 + rejected tx_state_3 + int (length (queue tx_state_3)) =
     int (idx tx_state_3)"
proof -
  have h1: "sorted (map arrival_ts [tx_req])" by simp
  have q: "queue (arrive [tx_req] (61 / 50) tx_state_2) = [tx_req]" "queue tx_state_2 = [tx_req]"
    by (simp_all add: arrive_def tx_state_2_def tx_state_1_def init_state_def)
  have z: "rejected tx_state_2 = 0" "rejected_reason tx_state_2 ''QUEUE_TIMEOUT'' = 0"
    "accepted tx_state_2 = 0"
    by (simp_all add: tx_state_2_def tx_state_1_def init_state_def)
  have to: "timed_out (61 / 50) tx_req"
    by (simp add: timed_out_def tx_req_def)
  note inst = queue_timeout_once [where q = "[]" and t = 0 and rj = 0 and sr = 0 and qt = 0
      and a = None, OF tx_run tx_tick_61]
  from inst have "\<exists>removed started.
      queue (arrive [tx_req] (61 / 50) tx_state_2) = removed @ started @ queue tx_state_3 \<and>
      queue (arrive [tx_req] (61 / 50) tx_state_2) =
        drop (nat (accepted tx_state_2 + rejected tx_state_2)) (take (idx tx_state_3) [tx_req]) \<and>
      list_all (timed_out (61 / 50)) removed \<and>
      (started @ queue tx_state_3 = [] \<or>
       \<not> timed_out (61 / 50) (hd (started @ queue tx_state_3))) \<and>
      (sorted (map arrival_ts [tx_req]) \<longrightarrow>
         list_all (\<lambda>r. \<not> timed_out (61 / 50) r) (started @ queue tx_state_3)) \<and>
      rejected tx_state_3 = rejected tx_state_2 + int (length removed) \<and>
      rejected_reason tx_state_3 ''QUEUE_TIMEOUT'' =
        rejected_reason tx_state_2 ''QUEUE_TIMEOUT'' + int (length removed) \<and>
      accepted tx_state_3 = accepted tx_state_2 + int (length started)"
    by (rule conjunct1)
  then obtain removed started where
    r0: "queue (arrive [tx_req] (61 / 50) tx_state_2) = removed @ started @ queue tx_state_3"
      "sorted (map arrival_ts [tx_req]) \<longrightarrow>
         list_all (\<lambda>r. \<not> timed_out (61 / 50) r) (started @ queue tx_state_3)"
      "rejected tx_state_3 = rejected tx_state_2 + int (length removed)"
      "rejected_reason tx_state_3 ''QUEUE_TIMEOUT'' =
        rejected_reason tx_state_2 ''QUEUE_TIMEOUT'' + int (length removed)"
      "accepted tx_state_3 = accepted tx_state_2 + int (length started)"
    by blast
  from r0(1) have r1: "[tx_req] = removed @ started @ queue tx_state_3"
    unfolding q .
  from r0(2) h1 have r2: "list_all (\<lambda>r. \<not> timed_out (61 / 50) r) (started @ queue tx_state_3)"
    by (rule mp)
  from r0(3,4,5) have r3: "rejected tx_state_3 = int (length removed)"
    "rejected_reason tx_state_3 ''QUEUE_TIMEOUT'' = int (length removed)"
    "accepted tx_state_3 = int (length started)"
    unfolding z by simp_all
  note r = r1 r2 r3
  have rem: "removed = [tx_req] \<and> started = [] \<and> queue tx_state_3 = []"
  proof (cases removed)
    case Nil
    with r(1) have "tx_req \<in> set (started @ queue tx_state_3)"
      by (metis append_Nil list.set_intros(1))
    with r(2) to show ?thesis by (simp add: list_all_iff)
  next
    case (Cons x xs)
    with r(1) show ?thesis by simp
  qed
  from inst have sum: "accepted tx_state_3 + rejected tx_state_3 +
      int (length (queue tx_state_3)) = int (idx tx_state_3)"
    by (rule conjunct2 [THEN conjunct2, THEN conjunct2, THEN conjunct1])
  from rem r(3,4,5) have cnt: "rejected tx_state_3 = 1"
    "rejected_reason tx_state_3 ''QUEUE_TIMEOUT'' = 1" "accepted tx_state_3 = 0"
    by simp_all
  from h1 tx_run tx_tick_61 q(2) to z(1,2) rem cnt sum show ?thesis
    by (intro conjI) simp_all
qed

section \<open>Properties of the whole run\<close>

lemma finish_node_id [simp]: "node_id (finish n) = node_id n"
  by (simp add: finish_def)

lemma start_node_id [simp]: "node_id (start n now k) = node_id n"
  by (simp add: start_def)

lemma map_node_id_update:
  "node_id n = node_id (ns ! i) \<Longrightarrow> map node_id (ns[i := n]) = map node_id ns"
proof (cases "i < length ns")
  case True
  assume "node_id n = node_id (ns ! i)"
  with True have "(map node_id ns)[i := node_id n] = (map node_id ns)[i := map node_id ns ! i]"
    by simp
  then show ?thesis
    by (simp only: map_update list_update_id)
next
  case False
  then show ?thesis by (simp add: list_update_beyond)
qed

lemma finish_all_returns:
  "list_all (\<lambda>f. py_index (length ns) (node_id_f f) \<noteq> None) cs \<Longrightarrow>
     \<exists>ns'. finish_all ns cs = Inr ns' \<and> map node_id ns' = map node_id ns"
proof (induction cs arbitrary: ns)
  case Nil
  then show ?case by simp
next
  case (Cons c cs)
  from Cons.prems obtain i where i: "py_index (length ns) (node_id_f c) = Some i"
    by auto
  have m: "map node_id (ns[i := finish (ns ! i)]) = map node_id ns"
    by (rule map_node_id_update) simp
  from Cons.prems have "list_all (\<lambda>f. py_index (length (ns[i := finish (ns ! i)])) (node_id_f f) \<noteq> None) cs"
    by simp
  from Cons.IH [OF this] i m show ?case by simp
qed

lemma node_ids_ok_cong: "map node_id ns' = map node_id ns \<Longrightarrow> node_ids_ok ns' = node_ids_ok ns"
proof -
  assume m: "map node_id ns' = map node_id ns"
  then have l: "length ns' = length ns" by (rule map_eq_imp_length_eq)
  have "node_ids_ok ns \<longleftrightarrow> list_all (\<lambda>i. py_index (length ns) i \<noteq> None) (map node_id ns)" for ns
    by (simp add: node_ids_ok_def list_all_iff)
  with m l show ?thesis by simp
qed

lemma complete_returns:
  assumes "index_inv s"
  shows "\<exists>s'. complete now s = Inr s' \<and> index_inv s' \<and>
           length (nodes s') = length (nodes s) \<and>
           per_sec s' = per_sec s \<and> sec_cursor s' = sec_cursor s"
proof (cases "filter (\<lambda>x. finish_ts x \<le> now) (inflight_list s) = []")
  case True
  with assms show ?thesis by (simp add: complete_def)
next
  case False
  from assms have "list_all (\<lambda>f. py_index (length (nodes s)) (node_id_f f) \<noteq> None)
      (filter (\<lambda>x. finish_ts x \<le> now) (inflight_list s))"
    by (simp add: index_inv_def list_all_iff)
  from finish_all_returns [OF this] obtain ns where
    f: "finish_all (nodes s) (filter (\<lambda>x. finish_ts x \<le> now) (inflight_list s)) = Inr ns"
    and m: "map node_id ns = map node_id (nodes s)"
    by blast
  from m have l: "length ns = length (nodes s)" by (rule map_eq_imp_length_eq)
  from assms node_ids_ok_cong [OF m] l False f show ?thesis
    by (simp add: complete_def Let_def index_inv_def list_all_iff)
qed

lemma try_nodes_ids:
  "try_nodes ns now k cap js fr = (ns', r, fr') \<Longrightarrow>
     map node_id ns' = map node_id ns \<and> (\<forall>i. r = Some i \<longrightarrow> i \<in> set js)"
proof (induction js arbitrary: ns fr)
  case Nil
  then show ?case by simp
next
  case (Cons j js)
  obtain ok reason n' where cs: "can_start (ns ! j) now k cap = ((ok, reason), n')"
    by (metis prod.exhaust)
  then have n': "n' = refill (ns ! j) now"
    using can_start_snd [of "ns ! j" now k cap] by simp
  show ?case
  proof (cases ok)
    case True
    with cs Cons.prems have "ns' = ns[j := start n' now k]" "r = Some j"
      by simp_all
    then show ?thesis
      by (simp add: map_node_id_update n')
  next
    case False
    with cs Cons.prems have "try_nodes (ns[j := n']) now k cap js reason = (ns', r, fr')"
      by simp
    from Cons.IH [OF this] show ?thesis
      by (simp add: map_node_id_update n')
  qed
qed

lemma admit_one_returns:
  assumes "admit_one pick now cap s = (started, s')" "index_inv s"
    and "list_all (\<lambda>i. i < length (nodes s)) (pick (rng_calls s))"
  shows "index_inv s' \<and> length (nodes s') = length (nodes s) \<and>
         per_sec s' = per_sec s \<and> sec_cursor s' = sec_cursor s"
proof -
  obtain ns r fr where t: "try_nodes (nodes s) now (total_tokens (hd (queue s))) cap
      (sort_key (\<lambda>i. inflight (nodes s ! i)) (pick (rng_calls s))) ''CONCURRENCY'' = (ns, r, fr)"
    by (metis prod.exhaust)
  from try_nodes_ids [OF t] have m: "map node_id ns = map node_id (nodes s)"
    and mem: "\<And>i. r = Some i \<Longrightarrow> i \<in> set (pick (rng_calls s))"
    by auto
  from m have l: "length ns = length (nodes s)" by (rule map_eq_imp_length_eq)
  from assms(2) node_ids_ok_cong [OF m] have ok: "node_ids_ok ns"
    by (simp add: index_inv_def)
  show ?thesis
  proof (cases r)
    case None
    with assms(1,2) t ok l show ?thesis
      by (auto simp: admit_one_def Let_def index_inv_def)
  next
    case (Some i)
    with mem assms(3) have "i < length ns"
      by (simp add: l list_all_iff)
    with ok have "py_index (length ns) (node_id (ns ! i)) \<noteq> None"
      by (simp add: node_ids_ok_def list_all_length)
    with Some assms(1,2) t ok l show ?thesis
      by (auto simp: admit_one_def Let_def index_inv_def)
  qed
qed

lemma admit_loop_returns:
  "index_inv s \<Longrightarrow> valid_pick (length (nodes s)) pick \<Longrightarrow>
     index_inv (admit_loop pick now cap T s) \<and>
     length (nodes (admit_loop pick now cap T s)) = length (nodes s) \<and>
     per_sec (admit_loop pick now cap T s) = per_sec s \<and>
     sec_cursor (admit_loop pick now cap T s) = sec_cursor s"
proof (induction pick now cap T s rule: admit_loop.induct)
  case (1 pick now cap T s)
  obtain started s' where a: "admit_one pick now cap s = (started, s')"
    by (metis prod.exhaust)
  from "1.prems"(2) have "list_all (\<lambda>i. i < length (nodes s)) (pick (rng_calls s))"
    by (simp add: valid_pick_def)
  from admit_one_returns [OF a "1.prems"(1) this]
  have s': "index_inv s'" "length (nodes s') = length (nodes s)"
    "per_sec s' = per_sec s" "sec_cursor s' = sec_cursor s"
    by simp_all
  show ?case
  proof (cases "queue s \<noteq> [] \<and> T < cap")
    case False
    then have "admit_loop pick now cap T s = s"
      by (subst admit_loop.simps) auto
    with "1.prems" show ?thesis by simp
  next
    case True
    show ?thesis
    proof (cases started)
      case False
      with True a have "admit_loop pick now cap T s = s'"
        by (subst admit_loop.simps) simp
      with s' show ?thesis by simp
    next
      case started: True
      with True a have eq: "admit_loop pick now cap T s = admit_loop pick now cap (T + 1) s'"
        by (subst admit_loop.simps) simp
      from "1.prems"(2) s'(2) have "valid_pick (length (nodes s')) pick" by simp
      from "1.IH" [OF True a [symmetric] refl started s'(1) this] s'(2,3,4) show ?thesis
        unfolding eq by simp
    qed
  qed
qed

lemma expire_queue_fields:
  "inflight_list (expire_queue now s) = inflight_list s \<and>
   per_sec (expire_queue now s) = per_sec s \<and>
   sec_cursor (expire_queue now s) = sec_cursor s"
proof (induction now s rule: expire_queue.induct)
  case (1 now s)
  show ?case
  proof (cases "queue s \<noteq> [] \<and> timed_out now (hd (queue s))")
    case True
    from "1.IH" [OF True] True show ?thesis
      by (subst (1 2 3) expire_queue.simps) simp
  next
    case False
    then have "expire_queue now s = s"
      by (subst expire_queue.simps) auto
    then show ?thesis by simp
  qed
qed

lemma expire_queue_index_inv: "index_inv s \<Longrightarrow> index_inv (expire_queue now s)"
  by (simp add: index_inv_def expire_queue_fields)

lemma close_window_index_inv: "index_inv s \<Longrightarrow> index_inv (close_window s)"
  by (simp add: index_inv_def close_window_def Let_def)

lemma close_window_series: "series_inv s \<Longrightarrow> series_inv (close_window s)"
  by (simp add: series_inv_def close_window_def Let_def)

lemma roll_windows_returns:
  "index_inv s \<Longrightarrow> series_inv s \<Longrightarrow>
     index_inv (roll_windows now s) \<and> series_inv (roll_windows now s) \<and>
     now < real_of_int (sec_cursor (roll_windows now s)) + 1"
proof (induction now s rule: roll_windows.induct)
  case (1 now s)
  show ?case
  proof (cases "now \<ge> real_of_int (sec_cursor s) + 1")
    case True
    from "1.IH" [OF True close_window_index_inv [OF "1.prems"(1)]
        close_window_series [OF "1.prems"(2)]] True
    show ?thesis
      by (subst (1 2 3) roll_windows.simps) simp
  next
    case False
    then have "roll_windows now s = s"
      by (subst roll_windows.simps) simp
    with False "1.prems" show ?thesis by simp
  qed
qed

lemma tick_returns:
  assumes "index_inv s" "series_inv s" "valid_pick (length (nodes s)) pick"
  shows "\<exists>s'. tick pick reqs now s = Inr s' \<and> index_inv s' \<and> series_inv s' \<and>
           length (nodes s') = length (nodes s) \<and>
           now < real_of_int (sec_cursor s') + 1"
proof -
  have "index_inv (arrive reqs now s)"
    using assms(1) by (simp add: index_inv_def arrive_def Let_def)
  from complete_returns [OF this, of now] obtain s1 where
    c: "complete now (arrive reqs now s) = Inr s1" and i1: "index_inv s1"
    and l1: "length (nodes s1) = length (nodes s)"
    and p1: "per_sec s1 = per_sec s" "sec_cursor s1 = sec_cursor s"
    by (auto simp: arrive_def Let_def)
  define s2 where "s2 = expire_queue now s1"
  define s3 where "s3 = admit_loop pick now (current_limit (controller s2)) (sum_inflight (nodes s2)) s2"
  define s4 where "s4 = s3\<lparr>peak_concurrency := max (peak_concurrency s3) (sum_inflight (nodes s3))\<rparr>"
  from c have s': "tick pick reqs now s = Inr (roll_windows now s4)"
    by (simp add: tick_def Let_def s2_def s3_def s4_def)
  have i2: "index_inv s2" "length (nodes s2) = length (nodes s)"
    "per_sec s2 = per_sec s" "sec_cursor s2 = sec_cursor s"
    using i1 l1 p1 by (simp_all add: s2_def expire_queue_index_inv expire_queue_fields)
  from assms(3) i2(2) have "valid_pick (length (nodes s2)) pick" by simp
  from admit_loop_returns [OF i2(1) this, of now "current_limit (controller s2)" "sum_inflight (nodes s2)"]
  have i3: "index_inv s3" "length (nodes s3) = length (nodes s)"
    "per_sec s3 = per_sec s" "sec_cursor s3 = sec_cursor s"
    using i2 by (simp_all add: s3_def)
  then have i4: "index_inv s4" "series_inv s4" "length (nodes s4) = length (nodes s)"
    using assms(2) by (simp_all add: s4_def index_inv_def series_inv_def)
  from roll_windows_returns [OF i4(1,2), of now] i4(3) show ?thesis
    unfolding s' by simp
qed

lemma run_loop_returns:
  "index_inv s \<Longrightarrow> series_inv s \<Longrightarrow> valid_pick (length (nodes s)) pick \<Longrightarrow>
   now - dt < real_of_int (sec_cursor s) + 1 \<Longrightarrow>
     \<exists>s'. run_loop pick reqs end_time now s = Inr s' \<and> series_inv s' \<and>
          end_time - dt < real_of_int (sec_cursor s') + 1"
proof (induction pick reqs end_time now s rule: run_loop.induct)
  case (1 pick reqs end_time now s)
  show ?case
  proof (cases "now \<le> end_time")
    case False
    then have "run_loop pick reqs end_time now s = Inr s"
      by (subst run_loop.simps) simp
    with False "1.prems" show ?thesis by simp
  next
    case True
    from tick_returns [OF "1.prems"(1-3), of reqs now] obtain s1 where
      t: "tick pick reqs now s = Inr s1" and i: "index_inv s1" "series_inv s1"
      and l: "length (nodes s1) = length (nodes s)"
      and w: "now < real_of_int (sec_cursor s1) + 1"
      by blast
    from True t have eq: "run_loop pick reqs end_time now s = run_loop pick reqs end_time (now + dt) s1"
      by (subst run_loop.simps) simp
    from "1.prems"(3) l have v: "valid_pick (length (nodes s1)) pick" by simp
    from w have "now + dt - dt < real_of_int (sec_cursor s1) + 1" by simp
    from "1.IH" [OF True t i v this] show ?thesis
      unfolding eq .
  qed
qed

lemma make_nodes_ids: "node_ids_ok make_nodes"
  by (simp add: node_ids_ok_def make_nodes_def NodeState_init_def py_index_def Let_def)

lemma run_simulation_returns:
  assumes "reqs \<noteq> []"
    and "node_ids_ok (case node_factory of Some made \<Rightarrow> made | None \<Rightarrow> make_nodes)"
    and "valid_pick (length (case node_factory of Some made \<Rightarrow> made | None \<Rightarrow> make_nodes)) pick"
  shows "\<exists>s. run_simulation pick reqs c node_factory = Inr s \<and>
           max_arrival reqs + 20 - dt - 1 < real (length (per_sec s))"
proof -
  define ns where "ns = (case node_factory of Some made \<Rightarrow> made | None \<Rightarrow> make_nodes)"
  have i: "index_inv (init_state ns c)" "series_inv (init_state ns c)"
    "valid_pick (length (nodes (init_state ns c))) pick"
    "0 - dt < real_of_int (sec_cursor (init_state ns c)) + 1"
    using assms(2,3) by (simp_all add: ns_def index_inv_def series_inv_def init_state_def dt_def)
  from run_loop_returns [OF i, of reqs "max_arrival reqs + 20"] obtain s where
    r: "run_loop pick reqs (max_arrival reqs + 20) 0 (init_state ns c) = Inr s"
    and sr: "series_inv s" and w: "max_arrival reqs + 20 - dt < real_of_int (sec_cursor s) + 1"
    by blast
  from sr have "sec_cursor s = int (length (per_sec s))"
    by (simp add: series_inv_def)
  then have "real_of_int (sec_cursor s) = real (length (per_sec s))"
    by simp
  with w have "max_arrival reqs + 20 - dt - 1 < real (length (per_sec s))"
    by simp
  with r assms(1) show ?thesis
    by (simp add: run_simulation_def Let_def ns_def)
qed

lemma first_three_valid: "valid_pick (length make_nodes) first_three"
  by (simp add: valid_pick_def first_three_def make_nodes_def)

text \<open>
  C9, as the code has it. On an empty request sequence \<^verbatim>\<open>run_simulation\<close> raises
  \<^verbatim>\<open>ValueError\<close> (from \<^verbatim>\<open>max\<close> of an empty sequence) before its loop: no tick is
  executed and there is no state and no time series. Every non-empty request sequence,
  sorted by arrival or not, is run to the end when the node ids are positions of the node list
  and the samples are samples of it: the driver returns the final state, whose time series has
  a record for every second up to the end time.
\<close>

theorem run_simulation_input_check:
  "run_simulation pick [] c node_factory = Inl ValueError \<and>
   (reqs \<noteq> [] \<and>
    node_ids_ok (case node_factory of Some made \<Rightarrow> made | None \<Rightarrow> make_nodes) \<and>
    valid_pick (length (case node_factory of Some made \<Rightarrow> made | None \<Rightarrow> make_nodes)) pick \<longrightarrow>
      (\<exists>s. run_simulation pick reqs c node_factory = Inr s \<and>
           max_arrival reqs + 20 - dt - 1 < real (length (per_sec s))))"
proof -
  have "run_simulation pick [] c node_factory = Inl ValueError"
    by (simp add: run_simulation_def)
  then show ?thesis
    using run_simulation_returns [of reqs node_factory pick c] by blast
qed

theorem run_simulation_input_check_witness:
  "run_simulation first_three [] (Fixed 95) None = Inl ValueError \<and>
   [cx_req_a, cx_req_b] \<noteq> [] \<and> node_ids_ok make_nodes \<and>
   valid_pick (length make_nodes) first_three \<and>
   (\<exists>s. run_simulation first_three [cx_req_a, cx_req_b] (Fixed 95) None = Inr s \<and>
        per_sec s \<noteq> [])"
proof -
  have m: "max_arrival [cx_req_a, cx_req_b] = 0"
    by (simp add: max_arrival_def cx_req_a_def cx_req_b_def)
  from run_simulation_input_check [of first_three "Fixed 95" None "[cx_req_a, cx_req_b]"]
    make_nodes_ids first_three_valid
  show ?thesis
    unfolding m by (auto simp: dt_def)
qed

text \<open>
  The claim C9 as written fails on unsorted input, which the driver never inspects. The two
  requests below arrive at times 1 and 0, in this order; the run is not rejected, it goes
  through its ticks and returns a time series that is not empty.
\<close>

theorem unsorted_input_counterexample:
  "\<not> sorted (map arrival_ts unsorted_reqs) \<and>
   (case run_simulation first_three unsorted_reqs (Fixed 95) None of
      Inl e \<Rightarrow> False
    | Inr s \<Rightarrow> per_sec s \<noteq> [])"
proof -
  have u: "\<not> sorted (map arrival_ts unsorted_reqs)" "unsorted_reqs \<noteq> []"
    "max_arrival unsorted_reqs = 1"
    by (simp_all add: unsorted_reqs_def max_arrival_def)
  from run_simulation_returns [OF u(2), of None first_three "Fixed 95"]
    make_nodes_ids first_three_valid
  obtain s where "run_simulation first_three unsorted_reqs (Fixed 95) None = Inr s"
    and "max_arrival unsorted_reqs + 20 - dt - 1 < real (length (per_sec s))"
    by auto
  then show ?thesis
    using u(1) by (auto simp: u(3) dt_def)
qed

section \<open>A run with an unsorted input\<close>

lemmas ux_defs = ux_reqs_def ux_a_def ux_b_def ux_h_def ux_e_def ux_state_1_def ux_state_2_def
  ux_state_3_def cx_node_def cx_pick_def init_state_def NodeState_init_def

lemma ux_tick_0: "tick cx_pick ux_reqs 0 (init_state [cx_node] (Fixed 2)) = Inr ux_state_1"
  by (simp add: tick_def arrive_def complete_def expire_queue.simps timed_out_def
      admit_loop.simps admit_one_def can_start_def refill_def start_def total_tokens_def
      roll_windows.simps sum_inflight_def Let_def ux_defs)

lemma ux_tick_idle_1:
  "0 < t \<Longrightarrow> t < 99 / 100 \<Longrightarrow> tick cx_pick ux_reqs t ux_state_1 = Inr ux_state_1"
  by (simp add: tick_def arrive_def complete_def expire_queue.simps timed_out_def
      admit_loop.simps roll_windows.simps sum_inflight_def Let_def ux_defs)

lemma ux_tick_50: "tick cx_pick ux_reqs 1 ux_state_1 = Inr ux_state_2"
  by (simp add: tick_def arrive_def complete_def expire_queue.simps timed_out_def
      admit_loop.simps roll_windows.simps [of 1] close_window_def percentile_def
      sum_inflight_def Let_def ux_defs)

lemma ux_tick_idle_2:
  "1 < t \<Longrightarrow> t < 149 / 100 \<Longrightarrow> tick cx_pick ux_reqs t ux_state_2 = Inr ux_state_2"
  by (simp add: tick_def arrive_def complete_def expire_queue.simps timed_out_def
      admit_loop.simps roll_windows.simps sum_inflight_def Let_def ux_defs)

lemma ux_tick_75: "tick cx_pick ux_reqs (3 / 2) ux_state_2 = Inr ux_state_3"
  by (simp add: tick_def arrive_def complete_def py_index_def finish_def
      expire_queue.simps timed_out_def
      admit_loop.simps admit_one_def can_start_def refill_def start_def total_tokens_def
      roll_windows.simps sum_inflight_def Let_def ux_defs)

lemma ux_run_61:
  "run_ticks cx_pick ux_reqs (2099 / 100) 61 0 (init_state [cx_node] (Fixed 2)) =
     Inr (61 / 50, ux_state_2)"
proof -
  have "run_ticks cx_pick ux_reqs (2099 / 100) 61 0 (init_state [cx_node] (Fixed 2)) =
      run_ticks cx_pick ux_reqs (2099 / 100) (49 + 11) (1 / 50) ux_state_1"
    by (simp add: eval_nat_numeral ux_tick_0 dt_def del: run_ticks.simps(2))
       (simp add: ux_tick_0 dt_def)
  also have "\<dots> = run_ticks cx_pick ux_reqs (2099 / 100) 11 (1 / 50 + real (49::nat) * dt) ux_state_1"
    by (rule run_ticks_idle [where lo = 0 and hi = 1]) (simp_all add: ux_tick_idle_1 dt_def)
  also have "\<dots> = run_ticks cx_pick ux_reqs (2099 / 100) (10 + 0) (51 / 50) ux_state_2"
    by (simp add: eval_nat_numeral ux_tick_50 dt_def del: run_ticks.simps(2))
       (simp add: ux_tick_50 dt_def)
  also have "\<dots> = run_ticks cx_pick ux_reqs (2099 / 100) 0 (51 / 50 + real (10::nat) * dt) ux_state_2"
    by (rule run_ticks_idle [where lo = 1 and hi = "61 / 50"]) (simp_all add: ux_tick_idle_2 dt_def)
  also have "\<dots> = Inr (61 / 50, ux_state_2)"
    by (simp add: dt_def)
  finally show ?thesis .
qed

lemma ux_run_76:
  "run_ticks cx_pick ux_reqs (2099 / 100) 76 0 (init_state [cx_node] (Fixed 2)) =
     Inr (38 / 25, ux_state_3)"
proof -
  have "run_ticks cx_pick ux_reqs (2099 / 100) 76 0 (init_state [cx_node] (Fixed 2)) =
      run_ticks cx_pick ux_reqs (2099 / 100) (49 + 26) (1 / 50) ux_state_1"
    by (simp add: eval_nat_numeral ux_tick_0 dt_def del: run_ticks.simps(2))
       (simp add: ux_tick_0 dt_def)
  also have "\<dots> = run_ticks cx_pick ux_reqs (2099 / 100) 26 (1 / 50 + real (49::nat) * dt) ux_state_1"
    by (rule run_ticks_idle [where lo = 0 and hi = 1]) (simp_all add: ux_tick_idle_1 dt_def)
  also have "\<dots> = run_ticks cx_pick ux_reqs (2099 / 100) (24 + 1) (51 / 50) ux_state_2"
    by (simp add: eval_nat_numeral ux_tick_50 dt_def del: run_ticks.simps(2))
       (simp add: ux_tick_50 dt_def)
  also have "\<dots> = run_ticks cx_pick ux_reqs (2099 / 100) 1 (51 / 50 + real (24::nat) * dt) ux_state_2"
    by (rule run_ticks_idle [where lo = 1 and hi = "3 / 2"]) (simp_all add: ux_tick_idle_2 dt_def)
  also have "\<dots> = Inr (38 / 25, ux_state_3)"
    by (simp add: ux_tick_75 dt_def)
  finally show ?thesis .
qed

text \<open>Once every request has arrived and the queue is empty, no tick changes the queue or
  the counters of accepted and rejected requests.\<close>

lemma tick_drained:
  assumes "tick pick reqs now s = Inr s'" "queue s = []" "idx s = length reqs"
  shows "queue s' = [] \<and> idx s' = length reqs \<and> accepted s' = accepted s \<and>
         rejected s' = rejected s \<and> rejected_reason s' = rejected_reason s"
proof -
  from assms(1) obtain s1 where c: "complete now (arrive reqs now s) = Inr s1"
    by (auto simp: tick_def split: sum.splits)
  define s4 where "s4 = s1\<lparr>peak_concurrency := max (peak_concurrency s1) (sum_inflight (nodes s1))\<rparr>"
  have a: "arrive reqs now s = s"
    using assms(2,3) by (simp add: arrive_def)
  note f = complete_fields [OF c, unfolded a]
  from f(1) assms(2) have e: "expire_queue now s1 = s1"
    by (intro expire_queue_unfold_stop) simp
  from f(1) assms(2) have l: "admit_loop pick now cap T s1 = s1" for cap T
    by (subst admit_loop.simps) simp
  from assms(1) c have s': "s' = roll_windows now s4"
    by (simp add: tick_def Let_def e l s4_def)
  from roll_windows_fields [of now s4] f assms(2,3) show ?thesis
    unfolding s' by (simp add: s4_def)
qed

lemma run_loop_drained:
  "run_loop pick reqs end_time now s = Inr s' \<Longrightarrow> queue s = [] \<Longrightarrow> idx s = length reqs \<Longrightarrow>
     queue s' = [] \<and> accepted s' = accepted s \<and> rejected s' = rejected s \<and>
     rejected_reason s' = rejected_reason s"
proof (induction pick reqs end_time now s rule: run_loop.induct)
  case (1 pick reqs end_time now s)
  show ?case
  proof (cases "now \<le> end_time")
    case False
    with "1.prems" show ?thesis
      by (subst (asm) run_loop.simps) simp
  next
    case True
    with "1.prems"(1) obtain s1 where t: "tick pick reqs now s = Inr s1"
      and r: "run_loop pick reqs end_time (now + dt) s1 = Inr s'"
      by (subst (asm) run_loop.simps) (auto split: sum.splits)
    from tick_drained [OF t "1.prems"(2,3)] "1.IH" [OF True t r] show ?thesis
      by simp
  qed
qed

lemma run_loop_run_ticks:
  "run_ticks pick reqs end_time n now s = Inr (now', s') \<Longrightarrow>
     run_loop pick reqs end_time now s = run_loop pick reqs end_time now' s'"
proof (induction n arbitrary: now s)
  case 0
  then show ?case by simp
next
  case (Suc n)
  show ?case
  proof (cases "now \<le> end_time")
    case False
    with Suc.prems show ?thesis by simp
  next
    case True
    with Suc.prems obtain s1 where t: "tick pick reqs now s = Inr s1"
      and r: "run_ticks pick reqs end_time n (now + dt) s1 = Inr (now', s')"
      by (auto split: sum.splits)
    from True t have "run_loop pick reqs end_time now s = run_loop pick reqs end_time (now + dt) s1"
      by (subst run_loop.simps) simp
    with Suc.IH [OF r] show ?thesis by simp
  qed
qed

lemma cx_pick_valid: "valid_pick (length [cx_node]) cx_pick"
  by (simp add: valid_pick_def cx_pick_def)

lemma ux_max_arrival: "max_arrival ux_reqs + 20 = 2099 / 100"
  by (simp add: max_arrival_def ux_defs)

text \<open>
  The claim C7 as written, for every queued request, fails for an input that is not sorted
  by arrival, which the driver accepts: the timeout loop looks at the head of the queue
  only. In the run above, the request that arrived at time 0.01 stands in the queue behind
  the one that arrived at time 0.99. At the tick at time 1.22 it has waited 1.21 seconds,
  and the tick neither removes nor counts it. At the tick at time 1.5 both seats are free;
  the timeout loop stops at the head, which has waited 0.51 seconds, and the admission loop
  starts both requests, the second after a wait of 1.49 seconds. The whole run ends with
  four accepted requests and no rejection: the request whose wait exceeded the timeout was
  never counted as \<^verbatim>\<open>QUEUE_TIMEOUT\<close>.
\<close>

theorem queue_timeout_unsorted_counterexample:
  "run_ticks cx_pick ux_reqs (max_arrival ux_reqs + 20) 61 0 (init_state [cx_node] (Fixed 2)) =
     Inr (61 / 50, ux_state_2) \<and>
   queue ux_state_2 = [ux_h, ux_e] \<and>
   timed_out (61 / 50) ux_e \<and>
   tick cx_pick ux_reqs (61 / 50) ux_state_2 = Inr ux_state_2 \<and>
   run_ticks cx_pick ux_reqs (max_arrival ux_reqs + 20) 76 0 (init_state [cx_node] (Fixed 2)) =
     Inr (38 / 25, ux_state_3) \<and>
   queue ux_state_3 = [] \<and>
   map req (inflight_list ux_state_3) = [ux_h, ux_e] \<and>
   map (\<lambda>x. start_ts x - arrival_ts (req x)) (inflight_list ux_state_3) = [51 / 100, 149 / 100] \<and>
   rejected ux_state_3 = 0 \<and>
   (\<exists>final. run_simulation cx_pick ux_reqs (Fixed 2) (Some [cx_node]) = Inr final \<and>
      accepted final = 4 \<and> rejected final = 0 \<and> rejected_reason final ''QUEUE_TIMEOUT'' = 0)"
proof -
  have t61: "tick cx_pick ux_reqs (61 / 50) ux_state_2 = Inr ux_state_2"
    by (rule ux_tick_idle_2) simp_all
  have to: "timed_out (61 / 50) ux_e"
    by (simp add: timed_out_def ux_e_def)
  have f: "queue ux_state_2 = [ux_h, ux_e]" "queue ux_state_3 = []"
    "map req (inflight_list ux_state_3) = [ux_h, ux_e]"
    "map (\<lambda>x. start_ts x - arrival_ts (req x)) (inflight_list ux_state_3) = [51 / 100, 149 / 100]"
    "rejected ux_state_3 = 0" "accepted ux_state_3 = 4"
    "rejected_reason ux_state_3 ''QUEUE_TIMEOUT'' = 0" "idx ux_state_3 = length ux_reqs"
    by (simp_all add: ux_defs)
  have ne: "ux_reqs \<noteq> []"
    by (simp add: ux_reqs_def)
  have ids: "node_ids_ok (case Some [cx_node] of Some made \<Rightarrow> made | None \<Rightarrow> make_nodes)"
    by (simp add: node_ids_ok_def cx_node_def NodeState_init_def py_index_def)
  have vp: "valid_pick (length (case Some [cx_node] of Some made \<Rightarrow> made | None \<Rightarrow> make_nodes)) cx_pick"
    using cx_pick_valid by simp
  from run_simulation_returns [OF ne ids vp, of "Fixed 2"] obtain final where
    fin: "run_simulation cx_pick ux_reqs (Fixed 2) (Some [cx_node]) = Inr final"
    by blast
  then have "run_loop cx_pick ux_reqs (2099 / 100) 0 (init_state [cx_node] (Fixed 2)) = Inr final"
    using ne by (simp add: run_simulation_def Let_def ux_max_arrival)
  with run_loop_run_ticks [OF ux_run_76]
  have "run_loop cx_pick ux_reqs (2099 / 100) (38 / 25) ux_state_3 = Inr final"
    by simp
  from run_loop_drained [OF this f(2) f(8)] f(5,6,7)
  have "accepted final = 4 \<and> rejected final = 0 \<and> rejected_reason final ''QUEUE_TIMEOUT'' = 0"
    by simp
  with fin have ex: "\<exists>final. run_simulation cx_pick ux_reqs (Fixed 2) (Some [cx_node]) = Inr final \<and>
      accepted final = 4 \<and> rejected final = 0 \<and> rejected_reason final ''QUEUE_TIMEOUT'' = 0"
    by blast
  from ux_run_61 ux_run_76 t61 to f(1-5) ex show ?thesis
    unfolding ux_max_arrival by (intro conjI)
qed

end
